(* ===== verification/Go_Prelude.thy ===== *)
theory Go_Prelude
  imports Main "HOL-Library.AList"
begin

text \<open>
  What every component shares: the outcome of a Go call (a value, a returned error, a
  run-time panic, or a call that never returns), Go maps as association lists with
  distinct keys, the two generic interfaces of the library (\<open>codec\<close>: an encoder with a
  decoder that undoes it on a domain; \<open>machine\<close>: a stateful component with an invariant
  that its operations keep), and the collections of simplification rules that the proofs use.
\<close>

named_theorems go_eval \<open>definitions to unfold when a closed run of the model is evaluated\<close>
named_theorems go_defs \<open>definitions of the operations of the components\<close>

section \<open>Outcomes\<close>

text \<open>
  The run-time panics the modelled code can raise. None of them is recovered anywhere in
  the repository, and each is raised in a goroutine, so a panic ends the whole process.
\<close>

datatype go_panic = NilDeref | IndexOutOfRange | SliceBounds | NegativeWaitGroup

text \<open>
  \<open>Ret\<close>: the call returned (with a nil error); \<open>Fail\<close>: it returned a non-nil error;
  \<open>Panic\<close>: it panicked; \<open>Block\<close>: it waits for an event that no longer can occur.
\<close>

datatype ('e, 'a) outcome = Ret 'a | Fail 'e | Panic go_panic | Block

fun is_ret :: "('e, 'a) outcome \<Rightarrow> bool" where
  "is_ret (Ret _) = True"
| "is_ret _ = False"

fun is_fail :: "('e, 'a) outcome \<Rightarrow> bool" where
  "is_fail (Fail _) = True"
| "is_fail _ = False"

fun is_panic :: "('e, 'a) outcome \<Rightarrow> bool" where
  "is_panic (Panic _) = True"
| "is_panic _ = False"

lemma is_ret_iff: "is_ret r \<longleftrightarrow> (\<exists>x. r = Ret x)"
  by (cases r) auto

lemma is_fail_iff: "is_fail r \<longleftrightarrow> (\<exists>e. r = Fail e)"
  by (cases r) auto

lemma is_panic_iff: "is_panic r \<longleftrightarrow> (\<exists>p. r = Panic p)"
  by (cases r) auto

text \<open>
  Sequencing of calls that change a state: \<open>and_then\<close> is \<open>if err := f(); err != nil { return
  err }\<close> followed by the rest, \<open>regardless\<close> is \<open>_ = f()\<close> followed by the rest. A panic or a
  call that blocks stops both.
\<close>

fun and_then ::
  "'s \<times> ('e, 'a) outcome \<Rightarrow> ('a \<Rightarrow> 's \<Rightarrow> 's \<times> ('e, 'b) outcome) \<Rightarrow> 's \<times> ('e, 'b) outcome" where
  "and_then (s, Ret x) k = k x s"
| "and_then (s, Fail e) k = (s, Fail e)"
| "and_then (s, Panic p) k = (s, Panic p)"
| "and_then (s, Block) k = (s, Block)"

fun regardless ::
  "'s \<times> ('e, 'a) outcome \<Rightarrow> ('s \<Rightarrow> 's \<times> ('e, 'b) outcome) \<Rightarrow> 's \<times> ('e, 'b) outcome" where
  "regardless (s, Ret x) k = k s"
| "regardless (s, Fail e) k = k s"
| "regardless (s, Panic p) k = (s, Panic p)"
| "regardless (s, Block) k = (s, Block)"

lemma and_then_fst:
  "P (fst r) \<Longrightarrow> (\<And>x. snd r = Ret x \<Longrightarrow> P (fst (k x (fst r)))) \<Longrightarrow> P (fst (and_then r k))"
  by (cases "(r, k)" rule: and_then.cases) auto

lemma regardless_fst:
  "P (fst r) \<Longrightarrow> P (fst (k (fst r))) \<Longrightarrow> P (fst (regardless r k))"
  by (cases "(r, k)" rule: regardless.cases) auto

lemma and_then_eq:
  "and_then r k = (case snd r of
     Ret x \<Rightarrow> k x (fst r) | Fail e \<Rightarrow> (fst r, Fail e) | Panic p \<Rightarrow> (fst r, Panic p) | Block \<Rightarrow> (fst r, Block))"
  by (cases "(r, k)" rule: and_then.cases) auto

lemma regardless_eq:
  "regardless r k = (case snd r of
     Ret x \<Rightarrow> k (fst r) | Fail e \<Rightarrow> k (fst r) | Panic p \<Rightarrow> (fst r, Panic p) | Block \<Rightarrow> (fst r, Block))"
  by (cases "(r, k)" rule: regardless.cases) auto

section \<open>Go maps\<close>

text \<open>
  A Go map that the code ranges over is an association list with distinct keys. \<open>m[k]\<close>
  with a missing key reads the zero value (\<open>gm_str\<close>, for string values).
\<close>

type_synonym ('k, 'v) gomap = "('k \<times> 'v) list"

abbreviation gm_get :: "('k, 'v) gomap \<Rightarrow> 'k \<Rightarrow> 'v option" where
  "gm_get \<equiv> map_of"

abbreviation gm_set :: "'k \<Rightarrow> 'v \<Rightarrow> ('k, 'v) gomap \<Rightarrow> ('k, 'v) gomap" where
  "gm_set \<equiv> AList.update"

abbreviation gm_del :: "'k \<Rightarrow> ('k, 'v) gomap \<Rightarrow> ('k, 'v) gomap" where
  "gm_del \<equiv> AList.delete"

abbreviation gm_keys :: "('k, 'v) gomap \<Rightarrow> 'k list" where
  "gm_keys m \<equiv> map fst m"

abbreviation gm_ok :: "('k, 'v) gomap \<Rightarrow> bool" where
  "gm_ok m \<equiv> distinct (map fst m)"

definition gm_str :: "('k, string) gomap \<Rightarrow> 'k \<Rightarrow> string" where
  "gm_str m k = (case gm_get m k of Some v \<Rightarrow> v | None \<Rightarrow> '''')"

lemma gm_get_set [simp]: "gm_get (gm_set k v m) k' = (if k' = k then Some v else gm_get m k')"
  by (simp add: update_conv)

lemma gm_get_del [simp]: "gm_get (gm_del k m) k' = (if k' = k then None else gm_get m k')"
  by (simp add: delete_conv)

lemma gm_del_set [simp]: "gm_del k (gm_set k v m) = gm_del k m"
  by (induction m) auto

lemma gm_ok_set [simp, intro]: "gm_ok m \<Longrightarrow> gm_ok (gm_set k v m)"
  by (rule distinct_update)

lemma gm_ok_del [simp, intro]: "gm_ok m \<Longrightarrow> gm_ok (gm_del k m)"
  by (rule distinct_delete)

lemma gm_set_fresh: "k \<notin> set (gm_keys m) \<Longrightarrow> gm_set k v m = m @ [(k, v)]"
  by (induction m) auto

lemma gm_get_None_iff: "gm_get m k = None \<longleftrightarrow> k \<notin> set (gm_keys m)"
  by (force simp: map_of_eq_None_iff)

lemma gm_get_in: "gm_ok m \<Longrightarrow> (k, v) \<in> set m \<Longrightarrow> gm_get m k = Some v"
  by simp

lemma gm_get_in_iff: "gm_ok m \<Longrightarrow> gm_get m k = Some v \<longleftrightarrow> (k, v) \<in> set m"
  by (auto dest: map_of_SomeD)

lemma gm_del_empty_iff: "gm_del k m = [] \<longleftrightarrow> set (gm_keys m) \<subseteq> {k}"
  by (auto simp: AList.delete_eq filter_empty_conv)

lemma gm_set_entries: "x \<in> set (gm_set k v m) \<Longrightarrow> x = (k, v) \<or> x \<in> set m"
  by (induction m) (auto split: if_splits)

lemma gm_del_entries: "x \<in> set (gm_del k m) \<Longrightarrow> x \<in> set m"
  by (auto simp: AList.delete_eq)

text \<open>\<open>for k, v := range m { h[k] = v }\<close>.\<close>

lemma gm_get_fold_set:
  "gm_ok m \<Longrightarrow> gm_get (fold (\<lambda>(k, v). gm_set k v) m h) k =
     (case gm_get m k of Some v \<Rightarrow> Some v | None \<Rightarrow> gm_get h k)"
proof (induction m arbitrary: h)
  case (Cons x m)
  obtain k' v where x: "x = (k', v)" by (cases x)
  with Cons.prems have "gm_get m k' = None" by (simp add: gm_get_None_iff)
  with Cons x show ?case by (auto split: option.splits)
qed simp

section \<open>The order of an iteration\<close>

text \<open>
  \<open>range\<close> visits the entries of a map, and \<open>ToSlice\<close> lists the members of a set, in an order
  that the language and the library leave open. Where the order decides what the code does,
  it is a parameter: a number for every key, possibly another one for every map, by which the
  entries are sorted. The two lemmas \<open>slice_of_any\<close> and \<open>range_over_any\<close> say that every order is
  the one of some numbers, so a theorem over all of them covers every run.
\<close>

type_synonym iteration = "string list \<Rightarrow> string \<Rightarrow> nat"

definition slice_of :: "iteration \<Rightarrow> string list \<Rightarrow> string list" where
  "slice_of ord xs = sort_key (ord xs) xs"

definition range_over :: "iteration \<Rightarrow> (string, 'v) gomap \<Rightarrow> (string, 'v) gomap" where
  "range_over ord m = sort_key (\<lambda>e. ord (gm_keys m) (fst e)) m"

lemma set_slice_of [simp]: "set (slice_of ord xs) = set xs"
  by (simp add: slice_of_def)

lemma distinct_slice_of [simp]: "distinct (slice_of ord xs) = distinct xs"
  by (simp add: slice_of_def)

lemma set_range_over [simp]: "set (range_over ord m) = set m"
  by (simp add: range_over_def)

lemma distinct_range_over [simp]: "distinct (map g (range_over ord m)) = distinct (map g m)"
  by (simp add: range_over_def distinct_map)

lemma slice_of_same [simp]: "slice_of (\<lambda>_ _. n) xs = xs"
  by (simp add: slice_of_def sort_key_const)

lemma range_over_same [simp]: "range_over (\<lambda>_ _. n) m = m"
  by (simp add: range_over_def sort_key_const)

lemma any_order:
  assumes "distinct ks"
  obtains key :: "string \<Rightarrow> nat" where "sorted (map key ks)" and "inj_on key (set ks)"
proof
  let ?key = "\<lambda>k. the (map_of (zip ks [0..<length ks]) k)"
  have keys: "map ?key ks = [0..<length ks]"
    by (rule nth_equalityI) (simp_all add: map_of_zip_nth assms)
  then show "sorted (map ?key ks)" by simp
  from keys have "distinct (map ?key ks)" by simp
  then show "inj_on ?key (set ks)" by (simp only: distinct_map)
qed

lemma range_over_any:
  assumes "gm_ok m" and "gm_ok ys" and "set ys = set m"
  obtains ord where "range_over ord m = ys"
proof (rule any_order [OF assms(2)])
  fix key :: "string \<Rightarrow> nat"
  assume key: "sorted (map key (gm_keys ys))" "inj_on key (set (gm_keys ys))"
  let ?f = "\<lambda>e. key (fst e)"
  have inj: "inj_on ?f (set m)"
    using assms(1,3) key(2) by (auto simp: distinct_map inj_on_def)
  have "range_over (\<lambda>_. key) m = ys"
  proof (rule map_sorted_distinct_set_unique [of ?f])
    show "sorted (map ?f ys)" using key(1) by (simp add: comp_def)
  qed (use inj assms in \<open>simp_all add: range_over_def distinct_map\<close>)
  then show thesis by (rule that)
qed

lemma slice_of_any:
  assumes "distinct xs" and "distinct ys" and "set ys = set xs"
  obtains ord where "slice_of ord xs = ys"
proof (rule any_order [OF assms(2)])
  fix key :: "string \<Rightarrow> nat"
  assume key: "sorted (map key ys)" "inj_on key (set ys)"
  have "slice_of (\<lambda>_. key) xs = ys"
    by (rule map_sorted_distinct_set_unique [of key])
      (use key assms in \<open>simp_all add: slice_of_def distinct_map\<close>)
  then show thesis by (rule that)
qed

section \<open>Codecs\<close>

text \<open>
  An encoder and a decoder that undoes it on the domain \<open>ok\<close>. The decoder is an option:
  \<open>None\<close> stands for every way of not returning a value.
\<close>

locale codec =
  fixes enc :: "'a \<Rightarrow> 'b"
    and dec :: "'b \<Rightarrow> 'a option"
    and ok :: "'a \<Rightarrow> bool"
  assumes dec_enc: "ok x \<Longrightarrow> dec (enc x) = Some x"
begin

lemma enc_inj: "ok x \<Longrightarrow> ok y \<Longrightarrow> enc x = enc y \<longleftrightarrow> x = y"
  by (metis dec_enc option.inject)

lemma dec_unique: "ok x \<Longrightarrow> dec (enc x) = Some y \<Longrightarrow> y = x"
  by (simp add: dec_enc)

lemma map_dec_enc: "(\<And>x. x \<in> set xs \<Longrightarrow> ok x) \<Longrightarrow> map (dec \<circ> enc) xs = map Some xs"
  by (simp add: dec_enc)

end

section \<open>Machines with an invariant\<close>

text \<open>
  A component with a state and a set of operations, given as one function from an
  operation to a state transformer with an outcome. \<open>run_ops\<close> performs a list of
  operations; a panic ends the process, so nothing after it runs.
\<close>

fun run_ops :: "('op \<Rightarrow> 's \<Rightarrow> 's \<times> ('e, 'a) outcome) \<Rightarrow> 'op list \<Rightarrow> 's \<Rightarrow> 's" where
  "run_ops step [] s = s"
| "run_ops step (x # xs) s =
     (case step x s of (s', r) \<Rightarrow> if is_panic r then s' else run_ops step xs s')"

locale machine =
  fixes step :: "'op \<Rightarrow> 's \<Rightarrow> 's \<times> ('e, 'a) outcome"
    and inv :: "'s \<Rightarrow> bool"
    and adm :: "'op \<Rightarrow> bool"
  assumes step_inv: "inv s \<Longrightarrow> adm x \<Longrightarrow> inv (fst (step x s))"
begin

lemma run_inv: "inv s \<Longrightarrow> (\<And>x. x \<in> set xs \<Longrightarrow> adm x) \<Longrightarrow> inv (run_ops step xs s)"
proof (induction xs arbitrary: s)
  case (Cons x xs)
  obtain s' r where step: "step x s = (s', r)" by (cases "step x s")
  with Cons.prems step_inv [of s x] have "inv s'" by simp
  with Cons step show ?case by simp
qed simp

end

text \<open>
  Such a component and an abstract one, with a relation between their states that every
  allowed operation keeps; which operations are allowed depends on the abstract state only.
\<close>

fun allowed_run :: "('op \<Rightarrow> 'm \<Rightarrow> bool) \<Rightarrow> ('op \<Rightarrow> 'm \<Rightarrow> 'm) \<Rightarrow> 'op list \<Rightarrow> 'm \<Rightarrow> bool" where
  "allowed_run allowed spec [] m = True"
| "allowed_run allowed spec (x # xs) m = (allowed x m \<and> allowed_run allowed spec xs (spec x m))"

lemma allowed_run_append:
  "allowed_run allowed spec (xs @ ys) m \<longleftrightarrow>
     allowed_run allowed spec xs m \<and> allowed_run allowed spec ys (fold spec xs m)"
  by (induction xs arbitrary: m) auto

locale simulation =
  fixes step :: "'op \<Rightarrow> 's \<Rightarrow> 's \<times> ('e, 'a) outcome"
    and spec :: "'op \<Rightarrow> 'm \<Rightarrow> 'm"
    and rel :: "'s \<Rightarrow> 'm \<Rightarrow> bool"
    and allowed :: "'op \<Rightarrow> 'm \<Rightarrow> bool"
  assumes step_sim: "rel s m \<Longrightarrow> allowed x m \<Longrightarrow> rel (fst (step x s)) (spec x m)"
    and step_safe: "rel s m \<Longrightarrow> allowed x m \<Longrightarrow> \<not> is_panic (snd (step x s))"
begin

lemma run_sim: "rel s m \<Longrightarrow> allowed_run allowed spec xs m \<Longrightarrow> rel (run_ops step xs s) (fold spec xs m)"
proof (induction xs arbitrary: s m)
  case (Cons x xs)
  obtain s' r where step: "step x s = (s', r)" by (cases "step x s")
  with Cons.prems step_sim [of s m x] step_safe [of s m x] have "rel s' (spec x m)" "\<not> is_panic r" by simp_all
  with Cons step show ?case by simp
qed simp

lemma run_safe:
  "rel s m \<Longrightarrow> allowed_run allowed spec (xs @ x # ys) m \<Longrightarrow> \<not> is_panic (snd (step x (run_ops step xs s)))"
  using run_sim [of s m xs] step_safe [of "run_ops step xs s" "fold spec xs m" x] by (simp add: allowed_run_append)

end

end
