(* ===== verification/Go_Strings.thy ===== *)
theory Go_Strings
  imports Go_Prelude "HOL-Library.Char_ord" "HOL-Library.List_Lexorder"
begin

text \<open>
  The parts of Go's standard library that the code uses on byte strings:
  \<open>strings.Split\<close>, \<open>strings.ReplaceAll\<close>, \<open>strings.Index\<close>, \<open>bytes.IndexByte\<close>,
  \<open>strings.ToLower\<close>, \<open>sort.Strings\<close>, \<open>strconv.Atoi\<close> and \<open>strconv.Itoa\<close>, with the laws
  that the components use. A Go string or byte slice is a list of bytes (\<open>char\<close>);
  \<open>int\<close> is 64 bits wide.
\<close>

abbreviation LF :: char where "LF \<equiv> CHR 0x0A"
abbreviation CR :: char where "CR \<equiv> CHR 0x0D"
abbreviation NUL :: char where "NUL \<equiv> CHR 0x00"
abbreviation BSL :: char where "BSL \<equiv> CHR 0x5C"
abbreviation COLON :: char where "COLON \<equiv> CHR 0x3A"

section \<open>Splitting\<close>

text \<open>\<open>strings.Split\<close> with a separator of one byte.\<close>

fun split_on :: "char \<Rightarrow> string \<Rightarrow> string list" where
  "split_on c [] = [[]]"
| "split_on c (x # xs) =
     (if x = c then [] # split_on c xs
      else (case split_on c xs of [] \<Rightarrow> [[x]] | p # ps \<Rightarrow> (x # p) # ps))"

lemma split_on_not_Nil [simp]: "split_on c s \<noteq> []"
  by (induction s) (auto split: list.splits)

lemma split_on_nosep: "c \<notin> set s \<Longrightarrow> split_on c s = [s]"
  by (induction s) auto

lemma split_on_append [simp]: "c \<notin> set a \<Longrightarrow> split_on c (a @ c # b) = a # split_on c b"
  by (induction a) auto

lemma length_split_on: "length (split_on c s) = Suc (count_list s c)"
  by (induction s) (auto split: list.splits)

lemma split_on_pieces: "p \<in> set (split_on c s) \<Longrightarrow> c \<notin> set p"
  by (induction s arbitrary: p) (auto split: if_splits list.splits)

lemma split_on_concat:
  "(\<And>l. l \<in> set ls \<Longrightarrow> c \<notin> set l) \<Longrightarrow>
   split_on c (concat (map (\<lambda>l. l @ [c]) ls) @ s) = ls @ split_on c s"
  by (induction ls) auto

text \<open>The first piece, and what follows the first separator.\<close>

lemma split_on_hd: "hd (split_on c s) = takeWhile (\<lambda>x. x \<noteq> c) s"
  by (induction s) (auto split: list.splits)

section \<open>Replacing\<close>

text \<open>
  \<open>strings.ReplaceAll s old new\<close> for a non-empty \<open>old\<close> (the code never passes an empty
  one): leftmost, non-overlapping occurrences.
\<close>

function replace_all :: "string \<Rightarrow> string \<Rightarrow> string \<Rightarrow> string" where
  "replace_all old new [] = []"
| "replace_all old new (x # xs) =
     (if old \<noteq> [] \<and> take (length old) (x # xs) = old
      then new @ replace_all old new (drop (length old) (x # xs))
      else x # replace_all old new xs)"
  by pat_completeness auto
termination
  by (relation "measure (\<lambda>(old, new, s). length s)") auto

lemma replace_all_1:
  "replace_all [a] new s = concat (map (\<lambda>x. if x = a then new else [x]) s)"
  by (induction s) auto

lemma replace_all_1_Nil: "replace_all [a] [] s = filter (\<lambda>x. x \<noteq> a) s"
  by (induction s) auto

lemma replace_all_2_hit: "replace_all [a, b] new (a # b # s) = new @ replace_all [a, b] new s"
  by simp

lemma replace_all_2_miss:
  "x \<noteq> a \<or> s = [] \<or> hd s \<noteq> b \<Longrightarrow> replace_all [a, b] new (x # s) = x # replace_all [a, b] new s"
  by (cases s) auto

lemmas replace_all_2 = replace_all_2_hit replace_all_2_miss

section \<open>Searching\<close>

text \<open>\<open>bytes.IndexByte\<close> and \<open>strings.Index\<close>; the result -1 is \<open>None\<close>.\<close>

fun index_byte :: "char \<Rightarrow> string \<Rightarrow> nat option" where
  "index_byte c [] = None"
| "index_byte c (x # xs) = (if x = c then Some 0 else map_option Suc (index_byte c xs))"

fun index_str :: "string \<Rightarrow> string \<Rightarrow> nat option" where
  "index_str sub [] = (if sub = [] then Some 0 else None)"
| "index_str sub (x # xs) =
     (if take (length sub) (x # xs) = sub then Some 0 else map_option Suc (index_str sub xs))"

lemma index_byte_None_iff: "index_byte c s = None \<longleftrightarrow> c \<notin> set s"
  by (induction s) auto

lemma index_byte_append [simp]: "c \<notin> set a \<Longrightarrow> index_byte c (a @ c # b) = Some (length a)"
  by (induction a) auto

lemma index_byte_Some:
  "index_byte c s = Some i \<Longrightarrow> i < length s \<and> s ! i = c \<and> c \<notin> set (take i s)"
  by (induction s arbitrary: i) (auto split: if_splits)

lemma index_str_bound: "index_str sub s = Some i \<Longrightarrow> i + length sub \<le> length s"
proof (induction s arbitrary: i)
  case (Cons x xs)
  show ?case
  proof (cases "take (length sub) (x # xs) = sub")
    case True
    then have "length sub \<le> length (x # xs)"
      by (metis length_take min.absorb_iff2 nat_le_linear take_all)
    with True Cons.prems show ?thesis by auto
  next
    case False
    with Cons show ?thesis by auto
  qed
qed (auto split: if_splits)

section \<open>Lower case\<close>

text \<open>
  \<open>strings.ToLower\<close>: a string of ASCII bytes is lowered byte by byte; for any other
  string Go maps \<open>unicode.ToLower\<close> over its runes, which is the parameter \<open>U\<close>.
\<close>

definition ascii_lower :: "char \<Rightarrow> char" where
  "ascii_lower c =
     (let n = of_char c :: nat in if 65 \<le> n \<and> n \<le> 90 then char_of (n + 32) else c)"

definition to_lower :: "(string \<Rightarrow> string) \<Rightarrow> string \<Rightarrow> string" where
  "to_lower U s =
     (if list_all (\<lambda>c. (of_char c :: nat) < 128) s then map ascii_lower s else U s)"

section \<open>Decimal numbers\<close>

datatype num_err = ErrSyntax | ErrRange

text \<open>64-bit \<open>int\<close>: the sum of two \<open>int\<close>s wraps around.\<close>

definition wrap64 :: "int \<Rightarrow> int" where
  "wrap64 n = (n + 2 ^ 63) mod 2 ^ 64 - 2 ^ 63"

definition int64 :: "int \<Rightarrow> bool" where
  "int64 n \<longleftrightarrow> - (2 ^ 63) \<le> n \<and> n < 2 ^ 63"

lemma wrap64_id: "int64 n \<Longrightarrow> wrap64 n = n"
  by (simp add: wrap64_def int64_def)

lemma wrap64_range: "int64 (wrap64 n)"
  using pos_mod_bound [of "2 ^ 64" "n + 2 ^ 63"] pos_mod_sign [of "2 ^ 64" "n + 2 ^ 63"]
  by (simp add: wrap64_def int64_def)

definition digit_val :: "char \<Rightarrow> nat option" where
  "digit_val c =
     (let n = of_char c :: nat in if 48 \<le> n \<and> n \<le> 57 then Some (n - 48) else None)"

definition digit_chr :: "nat \<Rightarrow> char" where
  "digit_chr d = char_of (48 + d)"

text \<open>
  \<open>strconv.ParseUint\<close> in base 10: the loop reports the first of a bad byte and an
  overflow of 64 bits, from the left.
\<close>

fun parse_uint :: "nat \<Rightarrow> string \<Rightarrow> num_err + nat" where
  "parse_uint n [] = Inr n"
| "parse_uint n (c # cs) =
     (case digit_val c of
        None \<Rightarrow> Inl ErrSyntax
      | Some d \<Rightarrow> if 10 * n + d \<ge> 2 ^ 64 then Inl ErrRange else parse_uint (10 * n + d) cs)"

text \<open>\<open>strconv.Atoi\<close>: an optional sign, at least one digit, the range of \<open>int64\<close>.\<close>

definition atoi :: "string \<Rightarrow> num_err + int" where
  "atoi s =
     (let neg = (s \<noteq> [] \<and> hd s = CHR ''-'');
          ds = (if s \<noteq> [] \<and> (hd s = CHR ''-'' \<or> hd s = CHR ''+'') then tl s else s)
      in if ds = [] then Inl ErrSyntax
         else (case parse_uint 0 ds of
             Inl e \<Rightarrow> Inl e
           | Inr n \<Rightarrow>
               if \<not> neg \<and> n \<ge> 2 ^ 63 then Inl ErrRange
               else if neg \<and> n > 2 ^ 63 then Inl ErrRange
               else Inr (if neg then - int n else int n)))"

fun dec_of_nat :: "nat \<Rightarrow> string" where
  "dec_of_nat n =
     (if n < 10 then [digit_chr n] else dec_of_nat (n div 10) @ [digit_chr (n mod 10)])"

declare dec_of_nat.simps [simp del]

text \<open>\<open>strconv.Itoa\<close>, which is also the \<open>%d\<close> verb.\<close>

definition itoa :: "int \<Rightarrow> string" where
  "itoa i = (if i < 0 then CHR ''-'' # dec_of_nat (nat (- i)) else dec_of_nat (nat i))"

lemma of_char_digit_chr: "d < 10 \<Longrightarrow> (of_char (digit_chr d) :: nat) = 48 + d"
  by (simp add: digit_chr_def)

lemma digit_val_digit_chr [simp]: "d < 10 \<Longrightarrow> digit_val (digit_chr d) = Some d"
  by (simp add: digit_val_def of_char_digit_chr)

lemma dec_of_nat_not_Nil [simp]: "dec_of_nat n \<noteq> []"
  by (subst dec_of_nat.simps) simp

text \<open>Every character of a decimal is a digit, so none is a separator of the protocol.\<close>

lemma dec_of_nat_digits:
  "c \<in> set (dec_of_nat n) \<Longrightarrow> 48 \<le> (of_char c :: nat) \<and> (of_char c :: nat) \<le> 57"
proof (induction n rule: dec_of_nat.induct)
  case (1 n)
  show ?case
  proof (cases "n < 10")
    case True
    with "1.prems" show ?thesis by (simp add: dec_of_nat.simps of_char_digit_chr)
  next
    case False
    with "1.prems" have "c \<in> set (dec_of_nat (n div 10)) \<or> c = digit_chr (n mod 10)"
      by (subst (asm) dec_of_nat.simps) auto
    with "1.IH" [OF False] show ?thesis by (auto simp: of_char_digit_chr)
  qed
qed

lemma not_in_dec:
  assumes "of_char c < (48::nat) \<or> of_char c > (57::nat)"
  shows "c \<notin> set (dec_of_nat n)"
  using dec_of_nat_digits [of c n] assms by auto

lemma not_in_itoa:
  assumes "of_char c < (48::nat) \<or> of_char c > (57::nat)" and "c \<noteq> CHR ''-''"
  shows "c \<notin> set (itoa n)"
  using assms by (simp add: itoa_def not_in_dec)

lemma parse_uint_append:
  "parse_uint m (a @ b) = (case parse_uint m a of Inl e \<Rightarrow> Inl e | Inr n \<Rightarrow> parse_uint n b)"
  by (induction a arbitrary: m) (auto split: option.splits)

lemma parse_uint_dec: "n < 2 ^ 64 \<Longrightarrow> parse_uint 0 (dec_of_nat n) = Inr n"
proof (induction n rule: dec_of_nat.induct)
  case (1 n)
  show ?case
  proof (cases "n < 10")
    case True
    then show ?thesis by (simp add: dec_of_nat.simps)
  next
    case False
    have "n div 10 < 2 ^ 64" using "1.prems" by linarith
    with "1.IH" [OF False] have "parse_uint 0 (dec_of_nat (n div 10)) = Inr (n div 10)" by simp
    moreover have "10 * (n div 10) + n mod 10 = n" by simp
    ultimately show ?thesis
      using False "1.prems" by (subst dec_of_nat.simps) (simp add: parse_uint_append)
  qed
qed

lemma hd_dec_digit: "48 \<le> (of_char (hd (dec_of_nat n)) :: nat)"
  using dec_of_nat_digits [of "hd (dec_of_nat n)" n] by simp

lemma hd_dec_not_sign: "hd (dec_of_nat n) \<noteq> CHR ''-''" "hd (dec_of_nat n) \<noteq> CHR ''+''"
  using hd_dec_digit [of n] by auto

lemma atoi_dec: "n < 2 ^ 63 \<Longrightarrow> atoi (dec_of_nat n) = Inr (int n)"
  by (simp add: atoi_def hd_dec_not_sign parse_uint_dec)

lemma atoi_itoa: "int64 i \<Longrightarrow> atoi (itoa i) = Inr i"
proof (cases "i < 0")
  case True
  assume "int64 i"
  with True have "nat (- i) \<le> 2 ^ 63" by (simp add: int64_def nat_le_iff)
  then show ?thesis using True
    by (simp add: atoi_def itoa_def hd_dec_not_sign parse_uint_dec)
next
  case False
  assume "int64 i"
  with False have "nat i < 2 ^ 63" by (simp add: int64_def nat_less_iff)
  with False show ?thesis by (simp add: itoa_def atoi_dec)
qed

text \<open>What \<open>Atoi\<close> accepts is in the range of \<open>int\<close>.\<close>

lemma atoi_range: "atoi s = Inr n \<Longrightarrow> int64 n"
  by (auto simp: atoi_def int64_def Let_def split: if_splits sum.splits)

interpretation decimal: codec itoa "\<lambda>s. case atoi s of Inl _ \<Rightarrow> None | Inr n \<Rightarrow> Some n" int64
  by unfold_locales (simp add: atoi_itoa)

section \<open>Sorting\<close>

text \<open>\<open>sort.Strings\<close> orders by bytes, which is the order of \<open>List_Lexorder\<close> on \<open>char\<close>.\<close>

abbreviation sort_strings :: "string list \<Rightarrow> string list" where
  "sort_strings \<equiv> sort"

end
