(* ===== verification/Stomp_Errors.thy ===== *)
theory Stomp_Errors
  imports Go_Strings
begin

text \<open>
  \<^verbatim>\<open>pkg/stomp/err.go\<close>: the error values. \<open>errorMsg\<close> builds an error from its type and a
  message; \<open>StompNumErr\<close> is the same with the text of a failed \<open>strconv.Atoi\<close> behind the
  message (kept as data, the code only logs it); \<open>NumErr\<close> is the error of \<open>strconv.Atoi\<close>
  itself, whose text nobody reads; \<open>OtherErr\<close> is an error made elsewhere
  (a login function, a connection, the scheduler).
\<close>

datatype stompErrorType =
    errByteFormat | errProtocolFrame | errNetwork | errInvalidArg | errFrameScanner
  | errBrokerStateMachine | errClientStateMachine | errTransaction

fun errorType_text :: "stompErrorType \<Rightarrow> string" where
  "errorType_text errByteFormat = ''Invalid wire format''"
| "errorType_text errProtocolFrame = ''Invalid frame format''"
| "errorType_text errNetwork = ''Network error''"
| "errorType_text errInvalidArg = ''Invalid argument''"
| "errorType_text errFrameScanner = ''Frame scanning error''"
| "errorType_text errBrokerStateMachine = ''Protocol (broker) state-machine error''"
| "errorType_text errClientStateMachine = ''Protocol (client) state-machine error''"
| "errorType_text errTransaction = ''Transaction error''"

datatype go_error =
    StompErr stompErrorType string
  | StompNumErr stompErrorType string string num_err
  | NumErr string num_err
  | OtherErr string

definition errorMsg :: "stompErrorType \<Rightarrow> string \<Rightarrow> go_error" where
  "errorMsg t msg = StompErr t msg"

text \<open>\<open>err.Error()\<close>, for the errors whose text the code reads.\<close>

fun error_text :: "go_error \<Rightarrow> string" where
  "error_text (StompErr t msg) = ''stomp: '' @ errorType_text t @ '': '' @ msg"
| "error_text (StompNumErr t msg num k) = ''stomp: '' @ errorType_text t @ '': '' @ msg"
| "error_text (NumErr num k) = ''strconv.Atoi''"
| "error_text (OtherErr msg) = msg"

type_synonym 'a result = "(go_error, 'a) outcome"

declare errorMsg_def [go_defs, go_eval]

text \<open>The call returned, or it failed with an error of the given type.\<close>

fun ret_or :: "stompErrorType \<Rightarrow> 'a result \<Rightarrow> bool" where
  "ret_or t (Ret _) = True"
| "ret_or t (Fail e) = (\<exists>msg. e = StompErr t msg)"
| "ret_or t (Panic p) = False"
| "ret_or t Block = False"

lemma errorMsg_eq [simp]: "errorMsg t msg = StompErr t' msg' \<longleftrightarrow> t = t' \<and> msg = msg'"
  by (simp add: errorMsg_def)

lemma ret_or_cases:
  assumes "ret_or t (r :: unit result)"
  obtains "r = Ret ()" | msg where "r = Fail (StompErr t msg)"
  using assms by (cases r) auto

end
