(* ===== verification/Frames.thy ===== *)
theory Frames
  imports Stomp_Errors
begin

text \<open>
  \<^verbatim>\<open>pkg/stomp/frame.go\<close>: commands, header keys, the validation table, the frame, and its
  validation. A command, a header key and an ack mode are Go strings. The body is
  \<open>None\<close> when the slice is nil; a nil header map is the empty map (every read agrees).
\<close>

section \<open>Commands and header keys\<close>

type_synonym Command = string
type_synonym Header = string
type_synonym AckMode = string

abbreviation CmdConnected :: Command where "CmdConnected \<equiv> ''CONNECTED''"
abbreviation CmdMessage :: Command where "CmdMessage \<equiv> ''MESSAGE''"
abbreviation CmdReceipt :: Command where "CmdReceipt \<equiv> ''RECEIPT''"
abbreviation CmdError :: Command where "CmdError \<equiv> ''ERROR''"

abbreviation CmdConnect :: Command where "CmdConnect \<equiv> ''CONNECT''"
abbreviation CmdStomp :: Command where "CmdStomp \<equiv> ''STOMP''"
abbreviation CmdSend :: Command where "CmdSend \<equiv> ''SEND''"
abbreviation CmdSubscribe :: Command where "CmdSubscribe \<equiv> ''SUBSCRIBE''"
abbreviation CmdUnsubscribe :: Command where "CmdUnsubscribe \<equiv> ''UNSUBSCRIBE''"
abbreviation CmdAck :: Command where "CmdAck \<equiv> ''ACK''"
abbreviation CmdNack :: Command where "CmdNack \<equiv> ''NACK''"
abbreviation CmdBegin :: Command where "CmdBegin \<equiv> ''BEGIN''"
abbreviation CmdCommit :: Command where "CmdCommit \<equiv> ''COMMIT''"
abbreviation CmdAbort :: Command where "CmdAbort \<equiv> ''ABORT''"
abbreviation CmdDisconnect :: Command where "CmdDisconnect \<equiv> ''DISCONNECT''"

definition serverCmdSet :: "Command list" where
  "serverCmdSet = [CmdConnected, CmdMessage, CmdReceipt, CmdError]"

definition clientCmdSet :: "Command list" where
  "clientCmdSet =
     [CmdConnect, CmdStomp, CmdSend, CmdSubscribe,
      CmdUnsubscribe, CmdAck, CmdNack, CmdBegin,
      CmdCommit, CmdAbort, CmdDisconnect]"

abbreviation HdrKeyAcceptVersion :: Header where "HdrKeyAcceptVersion \<equiv> ''accept-version''"
abbreviation HdrKeyAck :: Header where "HdrKeyAck \<equiv> ''ack''"
abbreviation HdrKeyContentLength :: Header where "HdrKeyContentLength \<equiv> ''content-length''"
abbreviation HdrKeyContentType :: Header where "HdrKeyContentType \<equiv> ''content-type''"
abbreviation HdrKeyDestination :: Header where "HdrKeyDestination \<equiv> ''destination''"
abbreviation HdrKeyHeartBeat :: Header where "HdrKeyHeartBeat \<equiv> ''heart-beat''"
abbreviation HdrKeyHost :: Header where "HdrKeyHost \<equiv> ''host''"
abbreviation HdrKeyID :: Header where "HdrKeyID \<equiv> ''id''"
abbreviation HdrKeyLogin :: Header where "HdrKeyLogin \<equiv> ''login''"
abbreviation HdrKeyMessage :: Header where "HdrKeyMessage \<equiv> ''message''"
abbreviation HdrKeyMessageID :: Header where "HdrKeyMessageID \<equiv> ''message-id''"
abbreviation HdrKeyPassCode :: Header where "HdrKeyPassCode \<equiv> ''passcode''"
abbreviation HdrKeyReceipt :: Header where "HdrKeyReceipt \<equiv> ''receipt''"
abbreviation HdrKeyReceiptID :: Header where "HdrKeyReceiptID \<equiv> ''receipt-id''"
abbreviation HdrKeyServer :: Header where "HdrKeyServer \<equiv> ''server''"
abbreviation HdrKeySession :: Header where "HdrKeySession \<equiv> ''session''"
abbreviation HdrKeySubscription :: Header where "HdrKeySubscription \<equiv> ''subscription''"
abbreviation HdrKeyTransaction :: Header where "HdrKeyTransaction \<equiv> ''transaction''"
abbreviation HdrKeyVersion :: Header where "HdrKeyVersion \<equiv> ''version''"

abbreviation HdrValAckAuto :: AckMode where "HdrValAckAuto \<equiv> ''auto''"
abbreviation HdrValAckClient :: AckMode where "HdrValAckClient \<equiv> ''client''"
abbreviation HdrValAckClientIndividual :: AckMode where
  "HdrValAckClientIndividual \<equiv> ''client-individual''"

section \<open>The validation table\<close>

record typeHeaders =
  required :: "Header list"
  optional :: "Header list"

definition validationMap :: "(Command, typeHeaders) gomap" where
  "validationMap =
   [(CmdConnect,
      \<lparr>required = [HdrKeyHost, HdrKeyAcceptVersion],
       optional = [HdrKeyLogin, HdrKeyPassCode, HdrKeyHeartBeat]\<rparr>),
    (CmdStomp,
      \<lparr>required = [HdrKeyHost, HdrKeyAcceptVersion],
       optional = [HdrKeyLogin, HdrKeyPassCode, HdrKeyHeartBeat]\<rparr>),
    (CmdConnected,
      \<lparr>required = [HdrKeyVersion],
       optional = [HdrKeySession, HdrKeyServer, HdrKeyHeartBeat]\<rparr>),
    (CmdSend, \<lparr>required = [HdrKeyDestination], optional = [HdrKeyTransaction]\<rparr>),
    (CmdSubscribe, \<lparr>required = [HdrKeyDestination, HdrKeyID], optional = [HdrKeyAck]\<rparr>),
    (CmdUnsubscribe, \<lparr>required = [HdrKeyID], optional = []\<rparr>),
    (CmdAck, \<lparr>required = [HdrKeyID], optional = [HdrKeyTransaction]\<rparr>),
    (CmdNack, \<lparr>required = [HdrKeyID], optional = [HdrKeyTransaction]\<rparr>),
    (CmdBegin, \<lparr>required = [HdrKeyTransaction], optional = []\<rparr>),
    (CmdCommit, \<lparr>required = [HdrKeyTransaction], optional = []\<rparr>),
    (CmdAbort, \<lparr>required = [HdrKeyTransaction], optional = []\<rparr>),
    (CmdDisconnect, \<lparr>required = [], optional = [HdrKeyReceipt]\<rparr>),
    (CmdMessage,
      \<lparr>required = [HdrKeyDestination, HdrKeyMessageID, HdrKeySubscription],
       optional = [HdrKeyAck]\<rparr>),
    (CmdReceipt, \<lparr>required = [HdrKeyReceiptID], optional = []\<rparr>),
    (CmdError, \<lparr>required = [], optional = [HdrKeyMessage]\<rparr>)]"

section \<open>The frame\<close>

type_synonym FrameSource = int

abbreviation (input) ServerFrame :: FrameSource where "ServerFrame \<equiv> 0"
abbreviation (input) ClientFrame :: FrameSource where "ClientFrame \<equiv> 1"

record Frame =
  command :: Command
  headers :: "(Header, string) gomap"
  body :: "string option"

definition NewFrame :: "Command \<Rightarrow> (Header, string) gomap \<Rightarrow> string option \<Rightarrow> Frame" where
  "NewFrame cmd hdrs bdy = \<lparr>command = cmd, headers = hdrs, body = bdy\<rparr>"

text \<open>The bytes of the body: none for a nil slice.\<close>

definition body_bytes :: "Frame \<Rightarrow> string" where
  "body_bytes f = (case body f of None \<Rightarrow> [] | Some b \<Rightarrow> b)"

definition getHeader :: "Frame \<Rightarrow> Header \<Rightarrow> string" where
  "getHeader f h = (case gm_get (headers f) h of Some v \<Rightarrow> v | None \<Rightarrow> '''')"

definition customHeadersAllowed :: "Frame \<Rightarrow> bool" where
  "customHeadersAllowed f \<longleftrightarrow>
     command f = CmdMessage \<or> command f = CmdError \<or> command f = CmdSend"

text \<open>
  \<open>checkValidEscapes\<close>: the loop over the index, which skips the byte after a backslash,
  is a recursion over the rest of the string.
\<close>

fun checkValidEscapes :: "string \<Rightarrow> bool" where
  "checkValidEscapes [] = True"
| "checkValidEscapes (c # s) =
     (if c = BSL then
        (case s of
           [] \<Rightarrow> False
         | d # s' \<Rightarrow>
             if d \<noteq> CHR ''n'' \<and> d \<noteq> CHR ''r'' \<and> d \<noteq> CHR ''c'' \<and> d \<noteq> BSL then False
             else checkValidEscapes s')
      else checkValidEscapes s)"

section \<open>Validation\<close>

text \<open>A string in single quotes, as the error messages have it.\<close>

definition sq :: "string \<Rightarrow> string" where
  "sq s = [CHR 0x27] @ s @ [CHR 0x27]"

text \<open>The loop over the headers of the frame: the first bad header is reported.\<close>

fun check_headers :: "typeHeaders \<Rightarrow> Frame \<Rightarrow> (Header \<times> string) list \<Rightarrow> unit result" where
  "check_headers t f [] = Ret ()"
| "check_headers t f ((h, v) # hs) =
     (if h \<notin> set (required t) \<and> h \<notin> set (optional t) \<and> \<not> customHeadersAllowed f then
        Fail (errorMsg errProtocolFrame
          (''Invalid header '' @ sq h @ '' for command '' @ sq (command f)))
      else if \<not> checkValidEscapes h \<or> \<not> checkValidEscapes v then
        Fail (errorMsg errProtocolFrame
          (''Invalid escape sequence in header '' @ sq (h @ '':'' @ v) @
             '' for command '' @ sq (command f)))
      else check_headers t f hs)"

text \<open>The loop over the required headers.\<close>

fun check_required :: "Frame \<Rightarrow> Header list \<Rightarrow> unit result" where
  "check_required f [] = Ret ()"
| "check_required f (h # hs) =
     (if gm_get (headers f) h = None then
        Fail (errorMsg errProtocolFrame
          (''Missing required header '' @ sq h @ '' for command '' @ sq (command f)))
      else check_required f hs)"

text \<open>
  For a command that is not in the table both sets are nil interfaces, and the first
  method call on one panics.
\<close>

definition validateHeaders :: "Frame \<Rightarrow> unit result" where
  "validateHeaders f =
     (case gm_get validationMap (command f) of
        None \<Rightarrow> Panic NilDeref
      | Some t \<Rightarrow>
          (case check_headers t f (headers f) of
             Ret _ \<Rightarrow> check_required f (required t)
           | r \<Rightarrow> r))"

definition validateSeverCommand :: "Frame \<Rightarrow> unit result" where
  "validateSeverCommand f =
     (if command f \<notin> set serverCmdSet then
        Fail (errorMsg errProtocolFrame
          (sq (command f) @ '' is not a valid Broker/Server command''))
      else Ret ())"

definition validateClientCommand :: "Frame \<Rightarrow> unit result" where
  "validateClientCommand f =
     (if command f \<notin> set clientCmdSet then
        Fail (errorMsg errProtocolFrame
          (sq (command f) @ '' is not a valid Client command''))
      else Ret ())"

definition Validate :: "FrameSource \<Rightarrow> Frame \<Rightarrow> unit result" where
  "Validate s f =
     (if s = ServerFrame then
        (case validateSeverCommand f of Ret _ \<Rightarrow> validateHeaders f | r \<Rightarrow> r)
      else if s = ClientFrame then
        (case validateClientCommand f of Ret _ \<Rightarrow> validateHeaders f | r \<Rightarrow> r)
      else Fail (errorMsg errInvalidArg
        (''FrameSource must be either ServerMode or ClientMode, received: '' @
           sq (itoa s))))"

declare NewFrame_def [go_eval] body_bytes_def [go_eval] getHeader_def [go_eval]
  customHeadersAllowed_def [go_eval] validateHeaders_def [go_eval]
  validateSeverCommand_def [go_eval] validateClientCommand_def [go_eval] Validate_def [go_eval]
  validationMap_def [go_eval] serverCmdSet_def [go_eval] clientCmdSet_def [go_eval]

section \<open>What validation accepts\<close>

text \<open>The tokens of a string in which every backslash starts one of the four escapes.\<close>

definition escape_token :: "string \<Rightarrow> bool" where
  "escape_token t \<longleftrightarrow>
     (\<exists>c. c \<noteq> BSL \<and> t = [c]) \<or> t \<in> {[BSL, CHR ''n''], [BSL, CHR ''r''], [BSL, CHR ''c''], [BSL, BSL]}"

lemma escape_token_single: "c \<noteq> BSL \<Longrightarrow> escape_token [c]"
  by (simp add: escape_token_def)

lemma escape_token_pair:
  "d = CHR ''n'' \<or> d = CHR ''r'' \<or> d = CHR ''c'' \<or> d = BSL \<Longrightarrow> escape_token [BSL, d]"
  by (auto simp: escape_token_def)

lemma checkValidEscapes_plain: "BSL \<notin> set s \<Longrightarrow> checkValidEscapes s"
  by (induction s) auto

lemma checkValidEscapes_append:
  "checkValidEscapes a \<Longrightarrow> checkValidEscapes (a @ b) = checkValidEscapes b"
  by (induction a rule: checkValidEscapes.induct) (auto split: if_splits list.splits)

lemma checkValidEscapes_token: "escape_token t \<Longrightarrow> checkValidEscapes (t @ s) = checkValidEscapes s"
  by (auto simp: escape_token_def)

lemma checkValidEscapes_tokens:
  "checkValidEscapes s \<Longrightarrow> \<exists>ts. s = concat ts \<and> list_all escape_token ts"
proof (induction s rule: checkValidEscapes.induct)
  case 1
  show ?case by (rule exI [of _ "[]"]) simp
next
  case (2 c s)
  show ?case
  proof (cases "c = BSL")
    case False
    with 2 obtain ts where "s = concat ts" "list_all escape_token ts" by auto
    with False show ?thesis
      by (intro exI [of _ "[c] # ts"]) (auto intro: escape_token_single)
  next
    case True
    with "2.prems" obtain d s' where s: "s = d # s'"
      and d: "d = CHR ''n'' \<or> d = CHR ''r'' \<or> d = CHR ''c'' \<or> d = BSL"
      and ok: "checkValidEscapes s'"
      by (auto split: list.splits if_splits)
    with True "2.IH"(1) [OF True s] obtain ts where "s' = concat ts" "list_all escape_token ts"
      by blast
    with True s d show ?thesis
      by (intro exI [of _ "[c, d] # ts"]) (simp add: escape_token_pair)
  qed
qed

lemma tokens_checkValidEscapes: "list_all escape_token ts \<Longrightarrow> checkValidEscapes (concat ts)"
  by (induction ts) (auto simp: checkValidEscapes_token)

lemma check_headers_ret_iff:
  "check_headers t f hs = Ret () \<longleftrightarrow>
     list_all (\<lambda>(h, v). (h \<in> set (required t) \<union> set (optional t) \<or> customHeadersAllowed f) \<and>
        checkValidEscapes h \<and> checkValidEscapes v) hs"
  by (induction hs) (auto split: if_splits)

lemma check_headers_result: "ret_or errProtocolFrame (check_headers t f hs)"
  by (induction hs) auto

lemma check_required_ret_iff:
  "check_required f hs = Ret () \<longleftrightarrow> list_all (\<lambda>h. gm_get (headers f) h \<noteq> None) hs"
  by (induction hs) auto

lemma check_required_result: "ret_or errProtocolFrame (check_required f hs)"
  by (induction hs) auto

text \<open>The conditions of the protocol, as one predicate on a frame and its row of the table.\<close>

definition conforms :: "typeHeaders \<Rightarrow> Frame \<Rightarrow> bool" where
  "conforms t f \<longleftrightarrow>
     list_all (\<lambda>(h, v). (h \<in> set (required t) \<union> set (optional t) \<or> customHeadersAllowed f) \<and>
        checkValidEscapes h \<and> checkValidEscapes v) (headers f) \<and>
     list_all (\<lambda>h. gm_get (headers f) h \<noteq> None) (required t)"

lemma conforms_iff:
  "conforms t f \<longleftrightarrow>
     check_headers t f (headers f) = Ret () \<and> check_required f (required t) = Ret ()"
  unfolding conforms_def check_headers_ret_iff check_required_ret_iff ..

text \<open>Every command of the two command sets has a row of the table, and no other has.\<close>

lemma validationMap_dom:
  "gm_get validationMap c \<noteq> None \<longleftrightarrow> c \<in> set serverCmdSet \<or> c \<in> set clientCmdSet"
  by (simp add: map_of_eq_None_iff validationMap_def serverCmdSet_def clientCmdSet_def)

lemma validateHeaders_row:
  assumes "gm_get validationMap (command f) = Some t"
  shows "ret_or errProtocolFrame (validateHeaders f)"
    and "validateHeaders f = Ret () \<longleftrightarrow> conforms t f"
  using check_headers_result [of t f "headers f"] check_required_result [of f "required t"] assms
  by (auto simp: validateHeaders_def conforms_iff split: outcome.splits)

lemma validateHeaders_result:
  assumes "command f \<in> set serverCmdSet \<or> command f \<in> set clientCmdSet"
  shows "ret_or errProtocolFrame (validateHeaders f)"
proof -
  from assms obtain t where "gm_get validationMap (command f) = Some t"
    using validationMap_dom by blast
  then show ?thesis by (rule validateHeaders_row)
qed

lemma validateHeaders_ret_iff:
  assumes "command f \<in> set serverCmdSet \<or> command f \<in> set clientCmdSet"
  shows "validateHeaders f = Ret () \<longleftrightarrow>
    (\<exists>t. gm_get validationMap (command f) = Some t \<and> conforms t f)"
proof -
  from assms obtain t where "gm_get validationMap (command f) = Some t"
    using validationMap_dom by blast
  then show ?thesis using validateHeaders_row(2) by auto
qed

lemma Validate_result:
  "ret_or (if s = ServerFrame \<or> s = ClientFrame then errProtocolFrame else errInvalidArg) (Validate s f)"
  using validateHeaders_result [of f]
  by (auto simp: Validate_def validateSeverCommand_def validateClientCommand_def
      split: outcome.splits)

lemma Validate_not_panic [simp]: "Validate s f \<noteq> Panic p" "Validate s f \<noteq> Block"
  using Validate_result [of s f] by (auto split: if_splits)

lemma Validate_client_iff:
  "Validate ClientFrame f = Ret () \<longleftrightarrow>
     command f \<in> set clientCmdSet \<and> (\<exists>t. gm_get validationMap (command f) = Some t \<and> conforms t f)"
  using validateHeaders_ret_iff [of f]
  by (auto simp: Validate_def validateClientCommand_def errorMsg_def split: outcome.splits)

lemma Validate_server_iff:
  "Validate ServerFrame f = Ret () \<longleftrightarrow>
     command f \<in> set serverCmdSet \<and> (\<exists>t. gm_get validationMap (command f) = Some t \<and> conforms t f)"
  using validateHeaders_ret_iff [of f]
  by (auto simp: Validate_def validateSeverCommand_def errorMsg_def split: outcome.splits)

text \<open>Every header of a validated frame has valid escapes.\<close>

lemma Validate_escapes:
  assumes "Validate s f = Ret ()" and "(h, v) \<in> set (headers f)"
  shows "checkValidEscapes h \<and> checkValidEscapes v"
proof -
  have "s = ServerFrame \<or> s = ClientFrame"
    using assms(1) by (auto simp: Validate_def split: if_splits)
  then obtain t where "conforms t f"
    using assms(1) Validate_client_iff Validate_server_iff by metis
  with assms(2) show ?thesis by (auto simp: conforms_def list_all_iff)
qed

lemma getHeader_escapes:
  assumes "Validate s f = Ret ()"
  shows "checkValidEscapes (getHeader f h)"
  using Validate_escapes [OF assms, of h] map_of_SomeD [of "headers f" h]
  by (auto simp: getHeader_def split: option.splits)

section \<open>Properties\<close>

text \<open>
  C25. Validation accepts exactly the frames that conform to their row of the table: the command
  belongs to the side that sends, every header is one of the row's (unless the command allows
  custom headers) and has valid escapes, and every required header is there. On any other
  frame it returns an error of the type \<open>errProtocolFrame\<close>; it never panics, although the
  lookups in the table are unchecked.
\<close>

theorem Validate_spec:
  "(Validate ClientFrame f = Ret () \<longleftrightarrow>
      command f \<in> set clientCmdSet \<and> (\<exists>t. gm_get validationMap (command f) = Some t \<and> conforms t f)) \<and>
   (Validate ServerFrame f = Ret () \<longleftrightarrow>
      command f \<in> set serverCmdSet \<and> (\<exists>t. gm_get validationMap (command f) = Some t \<and> conforms t f)) \<and>
   ret_or errProtocolFrame (Validate ClientFrame f) \<and> ret_or errProtocolFrame (Validate ServerFrame f)"
  using Validate_result [of ClientFrame f] Validate_result [of ServerFrame f]
  unfolding Validate_client_iff Validate_server_iff by simp

text \<open>
  C35. The scanning loop of \<open>checkValidEscapes\<close> accepts exactly the concatenations of plain
  characters and of the four escape sequences.
\<close>

theorem checkValidEscapes_grammar:
  "checkValidEscapes s \<longleftrightarrow> (\<exists>ts. s = concat ts \<and> list_all escape_token ts)"
  using checkValidEscapes_tokens tokens_checkValidEscapes by blast

end
