(* ===== verification/Serializer.thy ===== *)
theory Serializer
  imports Frames
begin

text \<open>
  \<^verbatim>\<open>pkg/stomp/serializer.go\<close>: escaping, the wire format, and the parser of a frame, with
  \<open>NewFrameFromBytes\<close> and \<open>String\<close> of \<^verbatim>\<open>frame.go\<close>. The lemmas compute what a peer reads
  back from an escaped header (\<open>reread\<close>) and from a serialized frame.
\<close>

section \<open>Escaping\<close>

definition escape :: "string \<Rightarrow> string" where
  "escape l =
     (let l = replace_all [BSL] [BSL, BSL] l;
          l = replace_all [LF] [BSL, CHR ''n''] l;
          l = replace_all [COLON] [BSL, CHR ''c''] l
      in l)"

definition unescape :: "string \<Rightarrow> string" where
  "unescape l =
     (let l = replace_all [BSL, BSL] [BSL] l;
          l = replace_all [BSL, CHR ''n''] [LF] l;
          l = replace_all [BSL, CHR ''c''] [COLON] l
      in l)"

section \<open>Serializing\<close>

definition getSortedHeaderKeys :: "Frame \<Rightarrow> string list" where
  "getSortedHeaderKeys f = sort_strings (gm_keys (headers f))"

definition header_line :: "Frame \<Rightarrow> string \<Rightarrow> string" where
  "header_line f hk = escape hk @ '':'' @ escape (gm_str (headers f) hk) @ [LF]"

definition serialize :: "Frame \<Rightarrow> string" where
  "serialize f =
     command f @ [LF] @
     concat (map (header_line f) (getSortedHeaderKeys f)) @
     [LF] @
     (case body f of None \<Rightarrow> [] | Some b \<Rightarrow> b) @
     [NUL]"

definition Frame_String :: "Frame \<Rightarrow> string" where
  "Frame_String f =
     [LF] @ ''==='' @ [LF] @
     command f @ [LF] @
     concat (map (header_line f) (getSortedHeaderKeys f)) @
     [LF] @
     body_bytes f @ ''<NUL>'' @
     [LF] @ ''==='' @ [LF]"

section \<open>Deserializing\<close>

text \<open>
  The backward scan for the NUL, over the reversed buffer: the index of a byte is the
  number of bytes that are still to be looked at. When only newlines are seen the
  position keeps its initial value 0; \<open>None\<close> is the early return with an error.
\<close>

fun nul_scan :: "string \<Rightarrow> nat option" where
  "nul_scan [] = Some 0"
| "nul_scan (c # rest) =
     (if c = LF then nul_scan rest
      else if c = NUL then Some (length rest)
      else None)"

text \<open>The loop over the lines after the command: it stops at the first empty line.\<close>

fun parse_headers :: "string list \<Rightarrow> (Header, string) gomap \<Rightarrow> (Header, string) gomap result" where
  "parse_headers [] hs = Ret hs"
| "parse_headers (l # ls) hs =
     (if l = [] then Ret hs
      else
        let h = split_on COLON l
        in if length h \<noteq> 2 then
             Fail (errorMsg errByteFormat (''Header must contain only one '' @ sq '':'' @ '', bad header: '' @ l))
           else parse_headers ls (gm_set (unescape (h ! 0)) (unescape (h ! 1)) hs))"

text \<open>
  The body is the slice \<open>s[i+2 : len(buf)]\<close>, where \<open>s\<close> is \<open>buf\<close> without its carriage
  returns: the slice is out of range when there was one.
\<close>

definition deserialize :: "string \<Rightarrow> Frame \<Rightarrow> Frame result" where
  "deserialize buf f =
     (case nul_scan (rev buf) of
        None \<Rightarrow> Fail (errorMsg errByteFormat ''Message frame must end with NUL byte'')
      | Some nulPos \<Rightarrow>
          let buf = take nulPos buf;
              s = replace_all [CR] [] buf;
              lines = split_on LF s;
              cmd = hd lines
          in (case parse_headers (tl lines) [] of
                Ret hs \<Rightarrow>
                  (case index_str [LF, LF] s of
                     None \<Rightarrow> Fail (errorMsg errByteFormat
                       (''End of headers must be marked by two newlines: '' @
                          [BSL, CHR ''n'', BSL, CHR ''n'']))
                   | Some i \<Rightarrow>
                       if i + 2 \<noteq> length buf then
                         (if length buf > length s then Panic SliceBounds
                          else Ret (f\<lparr>command := cmd, headers := hs,
                            body := Some (drop (i + 2) (take (length buf) s))\<rparr>))
                       else Ret (f\<lparr>command := cmd, headers := hs, body := None\<rparr>))
              | Fail e \<Rightarrow> Fail e
              | Panic p \<Rightarrow> Panic p
              | Block \<Rightarrow> Block))"

definition NewFrameFromBytes :: "string \<Rightarrow> Frame result" where
  "NewFrameFromBytes raw = deserialize raw (NewFrame [] [] None)"

declare escape_def [go_eval] unescape_def [go_eval] getSortedHeaderKeys_def [go_eval]
  header_line_def [go_eval] serialize_def [go_eval] deserialize_def [go_eval]
  NewFrameFromBytes_def [go_eval] Frame_String_def [go_eval]

section \<open>What a peer reads from an escaped string\<close>

text \<open>One byte at a time: the escape, and the same with backslashes left alone.\<close>

fun esc_char :: "char \<Rightarrow> string" where
  "esc_char c =
     (if c = BSL then [BSL, BSL] else if c = LF then [BSL, CHR ''n'']
      else if c = COLON then [BSL, CHR ''c''] else [c])"

fun mid_str :: "string \<Rightarrow> string" where
  "mid_str [] = []"
| "mid_str (c # s) =
     (if c = LF then [BSL, CHR ''n''] else if c = COLON then [BSL, CHR ''c''] else [c]) @ mid_str s"

lemma escape_chars: "escape s = concat (map esc_char s)"
  unfolding escape_def Let_def replace_all_1
  by (induction s) auto

lemma escape_Nil [simp]: "escape [] = []"
  by (simp add: escape_chars)

lemma escape_Cons: "escape (c # s) = esc_char c @ escape s"
  by (simp add: escape_chars)

lemma escape_append: "escape (a @ b) = escape a @ escape b"
  by (simp add: escape_chars)

lemma escape_no_colon: "COLON \<notin> set (escape s)"
  by (auto simp: escape_chars)

lemma escape_no_LF: "LF \<notin> set (escape s)"
  by (auto simp: escape_chars)

lemma escape_CR: "CR \<in> set (escape s) \<longleftrightarrow> CR \<in> set s"
  by (auto simp: escape_chars split: if_splits)

lemma escape_plain: "BSL \<notin> set s \<Longrightarrow> LF \<notin> set s \<Longrightarrow> COLON \<notin> set s \<Longrightarrow> escape s = s"
  by (induction s) (auto simp: escape_Cons)

lemma escape_valid: "checkValidEscapes (escape s)"
  by (induction s) (auto simp: escape_Cons)

text \<open>
  \<open>reread s\<close> is what \<open>unescape\<close> makes of \<open>escape s\<close>: the three passes of \<open>unescape\<close>
  run one after the other, so a backslash that was escaped in the first place and now
  precedes an \<open>n\<close> or a \<open>c\<close> is taken for a newline or a colon.
\<close>

fun reread :: "string \<Rightarrow> string" where
  "reread [] = []"
| "reread (x # s) =
     (if x = BSL \<and> s \<noteq> [] \<and> hd s = CHR ''n'' then LF # reread (tl s)
      else if x = BSL \<and> s \<noteq> [] \<and> hd s = CHR ''c'' then COLON # reread (tl s)
      else x # reread s)"

fun escape_safe :: "string \<Rightarrow> bool" where
  "escape_safe [] = True"
| "escape_safe (x # s) =
     (\<not> (x = BSL \<and> s \<noteq> [] \<and> (hd s = CHR ''n'' \<or> hd s = CHR ''c'')) \<and> escape_safe s)"

lemma unescape_pass1:
  "replace_all [BSL, BSL] [BSL] (concat (map esc_char s)) = mid_str s"
  by (induction s) (auto simp: replace_all_2 simp del: replace_all.simps(2))

text \<open>The second pass, with the newlines and the escaped newlines both turned into LF.\<close>

fun reread_n :: "string \<Rightarrow> string" where
  "reread_n [] = []"
| "reread_n (x # s) =
     (if x = BSL \<and> s \<noteq> [] \<and> hd s = CHR ''n'' then LF # reread_n (tl s)
      else (if x = COLON then [BSL, CHR ''c''] else [x]) @ reread_n s)"

lemma mid_hd_n: "s \<noteq> [] \<Longrightarrow> hd (mid_str s) = CHR ''n'' \<longleftrightarrow> hd s = CHR ''n''"
  by (cases s) auto

lemma unescape_pass2:
  "replace_all [BSL, CHR ''n''] [LF] (mid_str s) = reread_n s"
proof (induction s rule: reread_n.induct)
  case (2 x s)
  show ?case
  proof (cases "x = BSL \<and> s \<noteq> [] \<and> hd s = CHR ''n''")
    case True
    then obtain s' where "s = CHR ''n'' # s'" by (cases s) auto
    with True "2.IH"(1) show ?thesis
      by (simp add: replace_all_2 del: replace_all.simps(2))
  next
    case False
    then have "x = BSL \<Longrightarrow> mid_str s = [] \<or> hd (mid_str s) \<noteq> CHR ''n''"
      using mid_hd_n [of s] by (cases "s = []") auto
    with False "2.IH"(2) show ?thesis
      by (auto simp: replace_all_2 simp del: replace_all.simps(2))
  qed
qed simp

lemma reread_n_hd: "s \<noteq> [] \<Longrightarrow> reread_n s \<noteq> []"
  by (cases s) auto

lemma reread_n_hd_c: "s \<noteq> [] \<Longrightarrow> hd (reread_n s) = CHR ''c'' \<longleftrightarrow> hd s = CHR ''c''"
  by (cases s) auto

lemma unescape_pass3: "replace_all [BSL, CHR ''c''] [COLON] (reread_n s) = reread s"
proof (induction s rule: reread.induct)
  case (2 x s)
  consider (n) "x = BSL \<and> s \<noteq> [] \<and> hd s = CHR ''n''" | (c) "x = BSL \<and> s \<noteq> [] \<and> hd s = CHR ''c''"
    | (other) "\<not> (x = BSL \<and> s \<noteq> [] \<and> (hd s = CHR ''n'' \<or> hd s = CHR ''c''))"
    by blast
  then show ?case
  proof cases
    case n
    with "2.IH"(1) show ?thesis by (simp add: replace_all_2 del: replace_all.simps(2))
  next
    case c
    then obtain s' where "s = CHR ''c'' # s'" by (cases s) auto
    with c "2.IH"(2) show ?thesis by (simp add: replace_all_2 del: replace_all.simps(2))
  next
    case other
    then have "x = BSL \<Longrightarrow> reread_n s = [] \<or> hd (reread_n s) \<noteq> CHR ''c''"
      using reread_n_hd_c [of s] by (cases "s = []") auto
    with other "2.IH"(3) show ?thesis
      by (auto simp: replace_all_2 simp del: replace_all.simps(2))
  qed
qed simp

lemma unescape_escape: "unescape (escape s) = reread s"
  by (simp add: unescape_def escape_chars unescape_pass1 unescape_pass2 unescape_pass3)

lemma reread_length: "length (reread s) \<le> length s"
proof (induction s rule: reread.induct)
  case (2 x s)
  then show ?case by (cases s) auto
qed simp

lemma reread_safe: "escape_safe s \<Longrightarrow> reread s = s"
  by (induction s) auto

lemma reread_unsafe: "\<not> escape_safe s \<Longrightarrow> length (reread s) < length s"
proof (induction s)
  case (Cons x s)
  show ?case
  proof (cases "x = BSL \<and> s \<noteq> [] \<and> (hd s = CHR ''n'' \<or> hd s = CHR ''c'')")
    case True
    then show ?thesis using reread_length [of "tl s"] by (cases s) auto
  next
    case False
    with Cons show ?thesis by auto
  qed
qed simp

interpretation escaping: codec escape "\<lambda>s. Some (unescape s)" escape_safe
  by unfold_locales (simp add: unescape_escape reread_safe)

text \<open>A string without backslashes is safe.\<close>

lemma escape_safe_plain: "BSL \<notin> set s \<Longrightarrow> escape_safe s"
  by (induction s) auto

section \<open>What a peer reads from a serialized frame\<close>

lemma nul_scan_eols: "(\<And>c. c \<in> set e \<Longrightarrow> c = LF) \<Longrightarrow> nul_scan (e @ NUL # r) = Some (length r)"
  by (induction e) auto

lemma nul_scan_rev:
  assumes "set e \<subseteq> {LF}"
  shows "nul_scan (rev (p @ NUL # e)) = Some (length p)"
  using nul_scan_eols [of "rev e" "rev p"] assms by auto

lemma index_LFLF_line:
  "LF \<notin> set l \<Longrightarrow> index_str [LF, LF] (l @ LF # r) =
     (if r \<noteq> [] \<and> hd r = LF then Some (length l)
      else map_option (\<lambda>i. Suc (length l) + i) (index_str [LF, LF] r))"
proof (induction l)
  case Nil
  then show ?case by (cases r; cases "index_str [LF, LF] (tl r)") auto
next
  case (Cons x l)
  then show ?case by (cases "index_str [LF, LF] r") auto
qed

text \<open>The lines of the head of a frame, each followed by a newline.\<close>

definition lf_lines :: "string list \<Rightarrow> string" where
  "lf_lines ls = concat (map (\<lambda>l. l @ [LF]) ls)"

lemma lf_lines_simps [simp]:
  "lf_lines [] = []" "lf_lines (l # ls) = l @ LF # lf_lines ls"
  by (simp_all add: lf_lines_def)

lemma lf_lines_hd:
  "(\<And>l. l \<in> set ls \<Longrightarrow> l \<noteq> [] \<and> LF \<notin> set l) \<Longrightarrow> ls \<noteq> [] \<Longrightarrow>
     lf_lines ls @ r \<noteq> [] \<and> hd (lf_lines ls @ r) \<noteq> LF"
  by (cases ls) (use hd_in_set in \<open>fastforce simp: hd_append\<close>)+

lemma index_LFLF_lines:
  assumes "LF \<notin> set l" and "\<And>l. l \<in> set ls \<Longrightarrow> l \<noteq> [] \<and> LF \<notin> set l"
  shows "index_str [LF, LF] (lf_lines (l # ls) @ LF # b) = Some (length (lf_lines (l # ls)) - 1)"
  using assms
proof (induction ls arbitrary: l)
  case (Cons l' ls)
  have "hd (lf_lines (l' # ls) @ LF # b) \<noteq> LF"
    using lf_lines_hd [of "l' # ls" "LF # b"] Cons.prems(2) by blast
  moreover have "index_str [LF, LF] (lf_lines (l' # ls) @ LF # b) = Some (length (lf_lines (l' # ls)) - 1)"
    using Cons by auto
  ultimately show ?case using Cons.prems(1)
    by (simp add: index_LFLF_line)
qed (simp add: index_LFLF_line)

definition header_text :: "Frame \<Rightarrow> string \<Rightarrow> string" where
  "header_text f hk = escape hk @ '':'' @ escape (gm_str (headers f) hk)"

definition head_lines :: "Frame \<Rightarrow> string list" where
  "head_lines f = command f # map (header_text f) (getSortedHeaderKeys f)"

lemma serialize_lines: "serialize f = lf_lines (head_lines f) @ LF # body_bytes f @ [NUL]"
  by (simp add: serialize_def head_lines_def lf_lines_def header_text_def header_line_def [abs_def]
      body_bytes_def comp_def split: option.splits)

lemma header_text_split:
  "split_on COLON (header_text f hk) = [escape hk, escape (gm_str (headers f) hk)]"
  by (simp add: header_text_def escape_no_colon split_on_nosep)

lemma header_text_line: "header_text f hk \<noteq> [] \<and> LF \<notin> set (header_text f hk)"
  by (simp add: header_text_def escape_no_LF)

lemma parse_headers_lines:
  "parse_headers (map (header_text f) ks @ [] # ls) hs =
     Ret (fold (\<lambda>k. gm_set (reread k) (reread (gm_str (headers f) k))) ks hs)"
  by (induction ks arbitrary: hs) (simp_all add: header_text_line header_text_split unescape_escape)

text \<open>
  What the receiver stores for a frame: the headers in sorted order, each read back
  through \<open>reread\<close>, and no body for an empty one.
\<close>

definition received :: "Frame \<Rightarrow> Frame" where
  "received f =
     \<lparr>command = command f,
      headers = fold (\<lambda>k. gm_set (reread k) (reread (gm_str (headers f) k))) (getSortedHeaderKeys f) [],
      body = (if body_bytes f = [] then None else Some (body_bytes f))\<rparr>"

text \<open>The head of the frame is writable: a command line of its own and no carriage return.\<close>

definition head_ok :: "Frame \<Rightarrow> bool" where
  "head_ok f \<longleftrightarrow>
     command f \<noteq> [] \<and> LF \<notin> set (command f) \<and> CR \<notin> set (command f) \<and>
     list_all (\<lambda>(k, v). CR \<notin> set k \<and> CR \<notin> set v) (headers f)"

lemma gm_get_gm_str: "k \<in> set (gm_keys m) \<Longrightarrow> gm_get m k = Some (gm_str m k)"
  by (cases "gm_get m k") (simp_all add: gm_str_def gm_get_None_iff)

lemma gm_str_in: "k \<in> set (gm_keys m) \<Longrightarrow> (k, gm_str m k) \<in> set m"
  by (rule map_of_SomeD) (rule gm_get_gm_str)

lemma sorted_key_entry:
  assumes "list_all P (headers f)" and "k \<in> set (getSortedHeaderKeys f)"
  shows "P (k, gm_str (headers f) k)"
  using assms gm_str_in [of k "headers f"] by (simp add: getSortedHeaderKeys_def list_all_iff)

lemma head_lines_no_CR:
  assumes f: "head_ok f" and l: "l \<in> set (head_lines f)"
  shows "CR \<notin> set l"
proof (cases "l = command f")
  case False
  with l obtain k where k: "k \<in> set (getSortedHeaderKeys f)" and "l = header_text f k"
    by (auto simp: head_lines_def)
  moreover have "CR \<notin> set k \<and> CR \<notin> set (gm_str (headers f) k)"
    using sorted_key_entry [OF _ k, of "\<lambda>(k, v). CR \<notin> set k \<and> CR \<notin> set v"] f
    by (simp add: head_ok_def)
  ultimately show ?thesis by (simp add: header_text_def escape_CR)
qed (use f in \<open>simp add: head_ok_def\<close>)

lemma lf_lines_no_CR: "(\<And>l. l \<in> set ls \<Longrightarrow> CR \<notin> set l) \<Longrightarrow> CR \<notin> set (lf_lines ls)"
  by (induction ls) auto

lemma head_no_CR: "head_ok f \<Longrightarrow> CR \<notin> set (lf_lines (head_lines f))"
  by (rule lf_lines_no_CR) (rule head_lines_no_CR)

lemma length_filter_less_iff: "length (filter (\<lambda>x. x \<noteq> c) s) < length s \<longleftrightarrow> c \<in> set s"
  by (induction s) (auto simp: less_Suc_eq_le)

lemma split_head:
  assumes "head_ok f"
  shows "split_on LF (lf_lines (head_lines f) @ LF # b) = head_lines f @ [] # split_on LF b"
proof -
  have "\<And>l. l \<in> set (head_lines f) \<Longrightarrow> LF \<notin> set l"
    using assms header_text_line by (auto simp: head_ok_def head_lines_def)
  from split_on_concat [of "head_lines f" LF "LF # b", OF this] show ?thesis
    by (simp add: lf_lines_def)
qed

lemma index_head:
  assumes "head_ok f"
  shows "index_str [LF, LF] (lf_lines (head_lines f) @ LF # b) = Some (length (lf_lines (head_lines f)) - 1)"
  unfolding head_lines_def
  by (rule index_LFLF_lines) (use assms header_text_line in \<open>auto simp: head_ok_def\<close>)

lemma deserialize_serialize:
  assumes f: "head_ok f" and e: "set e \<subseteq> {LF}"
  shows "deserialize (serialize f @ e) g =
    (if CR \<in> set (body_bytes f) then Panic SliceBounds
     else Ret (g\<lparr>command := command f, headers := headers (received f), body := body (received f)\<rparr>))"
proof -
  let ?h = "lf_lines (head_lines f)" and ?b = "filter (\<lambda>x. x \<noteq> CR) (body_bytes f)"
  let ?buf = "?h @ LF # body_bytes f"
  have nul: "nul_scan (rev (serialize f @ e)) = Some (length ?buf)"
    using nul_scan_rev [OF e, of ?buf] by (simp add: serialize_lines)
  have buf: "take (length ?buf) (serialize f @ e) = ?buf"
    by (simp add: serialize_lines)
  have s: "replace_all [CR] [] ?buf = ?h @ LF # ?b"
    using head_no_CR [OF f] by (auto simp: replace_all_1_Nil filter_id_conv)
  have idx: "index_str [LF, LF] (?h @ LF # ?b) = Some (length ?h - 1)"
    by (rule index_head [OF f])
  have len: "length ?h > 0" by (simp add: head_lines_def)
  have hs: "parse_headers (tl (head_lines f @ [] # split_on LF ?b)) [] = Ret (headers (received f))"
    by (simp add: head_lines_def parse_headers_lines received_def)
  have cmd: "hd (head_lines f @ [] # split_on LF ?b) = command f"
    by (simp add: head_lines_def)
  have short: "length ?b < length (body_bytes f) \<longleftrightarrow> CR \<in> set (body_bytes f)"
    by (rule length_filter_less_iff)
  have full: "CR \<notin> set (body_bytes f) \<Longrightarrow> ?b = body_bytes f"
    by (auto simp: filter_id_conv)
  show ?thesis
    unfolding deserialize_def nul option.case Let_def buf s split_head [OF f] hs cmd outcome.case idx
    using len short full by (auto simp: received_def)
qed

lemma NewFrameFromBytes_serialize:
  assumes "head_ok f" and "set e \<subseteq> {LF}"
  shows "NewFrameFromBytes (serialize f @ e) =
    (if CR \<in> set (body_bytes f) then Panic SliceBounds else Ret (received f))"
  using deserialize_serialize [OF assms, of "NewFrame [] [] None"]
  by (simp add: NewFrameFromBytes_def NewFrame_def received_def)

text \<open>Reading back a frame whose keys and values survive escaping.\<close>

definition wire_ok :: "Frame \<Rightarrow> bool" where
  "wire_ok f \<longleftrightarrow>
     head_ok f \<and> gm_ok (headers f) \<and> CR \<notin> set (body_bytes f) \<and>
     list_all (\<lambda>(k, v). escape_safe k \<and> escape_safe v) (headers f)"

definition normal :: "Frame \<Rightarrow> Frame" where
  "normal f =
     \<lparr>command = command f,
      headers = map (\<lambda>k. (k, gm_str (headers f) k)) (getSortedHeaderKeys f),
      body = (if body_bytes f = [] then None else Some (body_bytes f))\<rparr>"

lemma fold_gm_set_fresh:
  "distinct ks \<Longrightarrow> set ks \<inter> set (gm_keys m) = {} \<Longrightarrow>
     fold (\<lambda>k. gm_set k (v k)) ks m = m @ map (\<lambda>k. (k, v k)) ks"
proof (induction ks arbitrary: m)
  case (Cons k ks)
  then have "gm_set k (v k) m = m @ [(k, v k)]" by (auto intro: gm_set_fresh)
  with Cons show ?case by auto
qed simp

lemma received_normal:
  assumes "wire_ok f"
  shows "received f = normal f"
proof -
  have "reread k = k \<and> reread (gm_str (headers f) k) = gm_str (headers f) k"
    if k: "k \<in> set (getSortedHeaderKeys f)" for k
    using sorted_key_entry [OF _ k, of "\<lambda>(k, v). escape_safe k \<and> escape_safe v"] assms
    by (simp add: wire_ok_def reread_safe)
  then have "fold (\<lambda>k. gm_set (reread k) (reread (gm_str (headers f) k))) (getSortedHeaderKeys f) [] =
      fold (\<lambda>k. gm_set k (gm_str (headers f) k)) (getSortedHeaderKeys f) []"
    by (intro fold_cong) auto
  moreover have "distinct (getSortedHeaderKeys f)"
    using assms by (simp add: wire_ok_def getSortedHeaderKeys_def)
  ultimately show ?thesis
    by (simp add: received_def normal_def fold_gm_set_fresh)
qed

lemma map_of_keys: "map_of (map (\<lambda>k. (k, v k)) ks) h = (if h \<in> set ks then Some (v h) else None)"
  by (induction ks) auto

lemma map_of_normal: "gm_get (headers (normal f)) h = gm_get (headers f) h"
proof (cases "h \<in> set (gm_keys (headers f))")
  case True
  then show ?thesis
    by (simp add: normal_def getSortedHeaderKeys_def map_of_keys gm_get_gm_str)
next
  case False
  then have "gm_get (headers f) h = None" by (simp only: gm_get_None_iff not_False_eq_True)
  with False show ?thesis
    by (simp add: normal_def getSortedHeaderKeys_def map_of_keys)
qed

lemma getHeader_normal [simp]: "getHeader (normal f) h = getHeader f h"
  by (simp add: getHeader_def map_of_normal)

lemma body_bytes_normal [simp]: "body_bytes (normal f) = body_bytes f"
  by (simp add: normal_def body_bytes_def)

lemma NewFrameFromBytes_wire:
  assumes "wire_ok f" and "set e \<subseteq> {LF}"
  shows "NewFrameFromBytes (serialize f @ e) = Ret (normal f)"
  using NewFrameFromBytes_serialize [of f e] received_normal [OF assms(1)] assms
  by (simp add: wire_ok_def)

section \<open>Which inputs make the parser fail\<close>

lemma parse_headers_result: "ret_or errByteFormat (parse_headers ls hs)"
  by (induction ls arbitrary: hs) (auto simp: Let_def)

lemma filter_length_eq: "CR \<notin> set s \<Longrightarrow> replace_all [CR] [] s = s"
  by (induction s) auto

lemma deserialize_total:
  assumes "CR \<notin> set buf"
  shows "ret_or errByteFormat (deserialize buf f)"
proof (cases "nul_scan (rev buf)")
  case (Some n)
  have "replace_all [CR] [] (take n buf) = take n buf"
    using assms by (intro filter_length_eq) (meson in_set_takeD)
  then show ?thesis
    using Some parse_headers_result [of "tl (split_on LF (take n buf))" "[]"]
    by (auto simp: deserialize_def Let_def split: outcome.splits option.splits)
qed (simp add: deserialize_def)

lemma NewFrameFromBytes_total: "CR \<notin> set raw \<Longrightarrow> ret_or errByteFormat (NewFrameFromBytes raw)"
  by (simp add: NewFrameFromBytes_def deserialize_total)

lemma deserialize_not_block: "deserialize buf f \<noteq> Block"
  using parse_headers_result
  by (auto simp: deserialize_def Let_def split: outcome.splits option.splits)
    (metis ret_or.simps(4))

section \<open>Properties\<close>

text \<open>
  C6. The wire format round trip: whatever the code serializes from a frame whose head is
  writable, whose headers survive escaping and whose body has no carriage return is parsed
  back, with any newlines after the NUL, to the same command, headers and body.
\<close>

theorem frame_round_trip:
  assumes "wire_ok f" and "set eols \<subseteq> {LF}"
  shows "NewFrameFromBytes (serialize f @ eols) = Ret (normal f) \<and>
    command (normal f) = command f \<and> body_bytes (normal f) = body_bytes f \<and>
    gm_get (headers (normal f)) = gm_get (headers f)"
  using NewFrameFromBytes_wire [OF assms] map_of_normal [of f]
  by (auto simp: normal_def body_bytes_def)

definition demo_frame :: Frame where
  "demo_frame = NewFrame CmdSend
     [(HdrKeyDestination, ''/queue:a''), (''note'', ''x'' @ [LF] @ ''y'')] (Some (''hi'' @ [NUL]))"

lemma demo_frame_ok: "wire_ok demo_frame"
  by code_simp

theorem frame_round_trip_witness:
  "NewFrameFromBytes (serialize demo_frame @ [LF]) = Ret (normal demo_frame) \<and>
    command (normal demo_frame) = command demo_frame \<and>
    body_bytes (normal demo_frame) = body_bytes demo_frame \<and>
    gm_get (headers (normal demo_frame)) = gm_get (headers demo_frame)"
  by (rule frame_round_trip [OF demo_frame_ok]) simp

text \<open>
  Two frames that the wire format can carry have the same bytes only if they have the
  same command, headers and body: nothing a peer can put in a header or in the body forges
  another frame.
\<close>

theorem serialize_injective:
  assumes "wire_ok f" and "wire_ok g" and "serialize f = serialize g"
  shows "command f = command g \<and> body_bytes f = body_bytes g \<and>
    (\<forall>h. gm_get (headers f) h = gm_get (headers g) h)"
proof -
  have "normal f = normal g"
    using NewFrameFromBytes_wire [OF assms(1), of "[]"] NewFrameFromBytes_wire [OF assms(2), of "[]"] assms(3)
    by simp
  then show ?thesis
    using map_of_normal [of f] map_of_normal [of g] body_bytes_normal [of f] body_bytes_normal [of g]
    by (metis Frame.select_convs(1) normal_def)
qed

theorem serialize_injective_witness:
  "\<forall>h. gm_get (headers demo_frame) h = gm_get (headers (demo_frame\<lparr>headers := rev (headers demo_frame)\<rparr>)) h"
proof -
  have "wire_ok (demo_frame\<lparr>headers := rev (headers demo_frame)\<rparr>)" by code_simp
  moreover have "serialize demo_frame = serialize (demo_frame\<lparr>headers := rev (headers demo_frame)\<rparr>)" by code_simp
  ultimately show ?thesis using serialize_injective [OF demo_frame_ok] by blast
qed

text \<open>
  C33. The two escaping functions: what \<open>escape\<close> writes always passes the check for valid
  escapes and contains no newline and no colon, but \<open>unescape\<close> gives the text back exactly when no
  backslash of it is followed by \<open>n\<close> or \<open>c\<close>; otherwise it returns a shorter text.
\<close>

theorem escape_round_trip_iff:
  "checkValidEscapes (escape s) \<and> LF \<notin> set (escape s) \<and> COLON \<notin> set (escape s) \<and>
     (if escape_safe s then unescape (escape s) = s else length (unescape (escape s)) < length s)"
  by (simp add: escape_valid escape_no_LF escape_no_colon unescape_escape reread_safe reread_unsafe)

text \<open>
  C31. Parsing bytes without carriage returns never panics or hangs: it returns a frame, or
  an error of the type \<open>errByteFormat\<close>.
\<close>

theorem parse_total:
  assumes "CR \<notin> set raw"
  shows "(\<exists>f. NewFrameFromBytes raw = Ret f) \<or> (\<exists>msg. NewFrameFromBytes raw = Fail (errorMsg errByteFormat msg))"
  using NewFrameFromBytes_total [OF assms]
  by (cases "NewFrameFromBytes raw") (auto simp: errorMsg_def)

theorem parse_total_witness:
  "(\<exists>f. NewFrameFromBytes ''SEND'' = Ret f) \<or> (\<exists>msg. NewFrameFromBytes ''SEND'' = Fail (errorMsg errByteFormat msg))"
  by (rule parse_total) simp

text \<open>
  A carriage return in the body of a frame, which the protocol allows, makes the parser
  of the peer panic: the body is sliced out of the text without its carriage returns by the
  length of the text with them.
\<close>

theorem cr_body_panics:
  assumes "head_ok f" and "CR \<in> set (body_bytes f)"
  shows "NewFrameFromBytes (serialize f) = Panic SliceBounds"
  using NewFrameFromBytes_serialize [OF assms(1), of "[]"] assms(2) by simp

theorem cr_body_panics_witness:
  "NewFrameFromBytes (serialize (demo_frame\<lparr>body := Some (''a'' @ [CR, LF])\<rparr>)) = Panic SliceBounds"
  by (rule cr_body_panics) code_simp+

end
