(* ===== verification/Subscriptions.thy ===== *)
theory Subscriptions
  imports Serializer "HOL-Library.Word"
begin

text \<open>
  \<^verbatim>\<open>pkg/stomp/subscribe.go\<close> without \<open>publish\<close> (which sends, see Broker): the three
  package-level maps of the subscription registry, the operations on them, and the
  acknowledgement numbers. A session pointer is the ID of the session. The roaring bitmap
  is the set of the 32-bit numbers in it; its \<open>Minimum\<close>, which the library documents for
  non-empty bitmaps only, is the parameter \<open>minimum\<close> of \<open>processAck\<close>. A \<open>set.Set\<close> of
  subscription IDs is the list of its members; the order in which \<open>ToSlice\<close> lists them is
  the parameter \<open>ord\<close> of \<open>cleanupSubscriptions\<close>.
\<close>

section \<open>State\<close>

record subsInfo =
  sessionHandler :: string
  ackMode :: AckMode
  nextAckNum :: "32 word"
  pendingAckBitmap :: "32 word set"

type_synonym subsToInfo = "(string, subsInfo) gomap"

record registry =
  destToSubsMap :: "string \<rightharpoonup> subsToInfo"
  sessToSubsMap :: "string \<rightharpoonup> string list"
  subsToDestMap :: "string \<rightharpoonup> string"

definition empty_registry :: registry where
  "empty_registry = \<lparr>destToSubsMap = Map.empty, sessToSubsMap = Map.empty, subsToDestMap = Map.empty\<rparr>"

text \<open>\<open>destToSubsMap[dest]\<close>: the nil map, which reads as empty, when the key is missing.\<close>

definition subs_at :: "registry \<Rightarrow> string \<Rightarrow> subsToInfo" where
  "subs_at st dest = (case destToSubsMap st dest of None \<Rightarrow> [] | Some m \<Rightarrow> m)"

section \<open>Operations\<close>

definition addSubscription ::
  "string \<Rightarrow> string \<Rightarrow> AckMode \<Rightarrow> string \<Rightarrow> registry \<Rightarrow> registry \<times> unit result" where
  "addSubscription dest subsID mode sess st =
     (if subsID = '''' then
        (st, Fail (errorMsg errBrokerStateMachine ''Missing ID when adding subscription''))
      else if dest = '''' then
        (st, Fail (errorMsg errBrokerStateMachine
          (''Missing destination when adding subscription, subsID: '' @ subsID)))
      else
        let subs = (if gm_get (subs_at st dest) subsID = None then [] else subs_at st dest);
            info = \<lparr>sessionHandler = sess, ackMode = mode, nextAckNum = 0, pendingAckBitmap = {}\<rparr>;
            members = (case sessToSubsMap st sess of None \<Rightarrow> [] | Some ms \<Rightarrow> ms)
        in (st\<lparr>destToSubsMap := (destToSubsMap st)(dest \<mapsto> gm_set subsID info subs),
               subsToDestMap := (subsToDestMap st)(subsID \<mapsto> dest),
               sessToSubsMap := (sessToSubsMap st)(sess \<mapsto> List.insert subsID members)\<rparr>, Ret ()))"

text \<open>
  \<open>destToSubsMap[dest][subsID]\<close> is a nil pointer when the key is missing, and reading
  its \<open>sessionHandler\<close> panics; so does \<open>Remove\<close> on a missing (nil) set.
\<close>

definition removeSubscription :: "string \<Rightarrow> registry \<Rightarrow> registry \<times> unit result" where
  "removeSubscription subsID st =
     (if subsID = '''' then
        (st, Fail (errorMsg errBrokerStateMachine ''Missing subscription ID when removing subscription''))
      else
        (case subsToDestMap st subsID of
           None \<Rightarrow> (st, Fail (errorMsg errBrokerStateMachine
             (''No such subscription present to unsubscribe, subsID: '' @ subsID)))
         | Some dest \<Rightarrow>
             (case destToSubsMap st dest of
                None \<Rightarrow> (st, Fail (errorMsg errBrokerStateMachine
                  (''No such subscription for given destination, subsID: '' @ subsID)))
              | Some subs \<Rightarrow>
                  (case gm_get subs subsID of
                     None \<Rightarrow> (st, Panic NilDeref)
                   | Some info \<Rightarrow>
                       let sess = sessionHandler info
                       in (case sessToSubsMap st sess of
                             None \<Rightarrow> (st, Panic NilDeref)
                           | Some ms \<Rightarrow>
                               let subs = gm_del subsID subs
                               in (st\<lparr>sessToSubsMap := (sessToSubsMap st)(sess \<mapsto> removeAll subsID ms),
                                      destToSubsMap := (destToSubsMap st)
                                        (dest := (if subs = [] then None else Some subs)),
                                      subsToDestMap := (subsToDestMap st)(subsID := None)\<rparr>,
                                   Ret ()))))))"

fun remove_all_subs :: "string list \<Rightarrow> registry \<Rightarrow> registry \<times> unit result" where
  "remove_all_subs [] st = (st, Ret ())"
| "remove_all_subs (i # ids) st =
     (case removeSubscription i st of
        (st', Ret _) \<Rightarrow> remove_all_subs ids st'
      | (st', r) \<Rightarrow> (st', r))"

definition cleanupSubscriptions :: "iteration \<Rightarrow> string \<Rightarrow> registry \<Rightarrow> registry \<times> unit result" where
  "cleanupSubscriptions ord sessionID st =
     (case sessToSubsMap st sessionID of
        None \<Rightarrow> (st, Ret ())
      | Some ms \<Rightarrow>
          (case remove_all_subs (slice_of ord ms) st of
             (st', Ret _) \<Rightarrow>
               (st'\<lparr>sessToSubsMap := (sessToSubsMap st')(sessionID := None)\<rparr>, Ret ())
           | (st', r) \<Rightarrow> (st', r)))"

section \<open>Acknowledgements\<close>

definition fmtAckNum :: "string \<Rightarrow> string \<Rightarrow> 32 word \<Rightarrow> string" where
  "fmtAckNum dest subsID ackNum = dest @ '':'' @ subsID @ '':'' @ itoa (uint ackNum)"

text \<open>The index \<open>parts[2]\<close> is out of range when there are fewer than two colons.\<close>

definition scanAckNum :: "string \<Rightarrow> (string \<times> string \<times> 32 word) result" where
  "scanAckNum fmtAck =
     (let parts = split_on COLON fmtAck
      in if length parts < 3 then Panic IndexOutOfRange
         else (case atoi (parts ! 2) of
                 Inl err \<Rightarrow> Fail (NumErr (parts ! 2) err)
               | Inr n \<Rightarrow>
                   if n < 0 then
                     Fail (errorMsg errBrokerStateMachine (''Invalid ack value: '' @ fmtAck))
                   else Ret (parts ! 0, parts ! 1, word_of_int n)))"

text \<open>The loop \<open>for i := Minimum(); Contains(i); i++\<close>; the counter wraps around.\<close>

function ack_run :: "32 word \<Rightarrow> 32 word set \<Rightarrow> 32 word set" where
  "ack_run i pend = (if i \<in> pend then ack_run (i + 1) (pend - {i}) else pend)"
  by pat_completeness auto
termination
  by (relation "measure (\<lambda>(i, pend). card pend)") (auto intro!: diff_less simp: card_gt_0_iff)

declare ack_run.simps [simp del]

definition ack_update ::
  "(32 word set \<Rightarrow> 32 word result) \<Rightarrow> subsInfo \<Rightarrow> 32 word \<Rightarrow> subsInfo result" where
  "ack_update minimum info ackNum =
     (if ackMode info = HdrValAckClient then
        (case minimum (pendingAckBitmap info) of
           Ret i \<Rightarrow> Ret (info\<lparr>pendingAckBitmap := ack_run i (pendingAckBitmap info)\<rparr>)
         | Fail e \<Rightarrow> Fail e | Panic p \<Rightarrow> Panic p | Block \<Rightarrow> Block)
      else if ackMode info = HdrValAckClientIndividual then
        Ret (info\<lparr>pendingAckBitmap := pendingAckBitmap info - {ackNum}\<rparr>)
      else Ret info)"

definition processAck ::
  "(32 word set \<Rightarrow> 32 word result) \<Rightarrow> string \<Rightarrow> registry \<Rightarrow> registry \<times> unit result" where
  "processAck minimum ackVal st =
     (case scanAckNum ackVal of
        Fail err \<Rightarrow> (st, Fail (errorMsg errBrokerStateMachine (''Invalid ACK value: '' @ ackVal)))
      | Panic p \<Rightarrow> (st, Panic p)
      | Block \<Rightarrow> (st, Block)
      | Ret (dest, subsID, ackNum) \<Rightarrow>
          (case destToSubsMap st dest of
             None \<Rightarrow> (st, Fail (errorMsg errBrokerStateMachine
               (''Missing entry in destToSubsMap, for key: '' @ dest)))
           | Some subs \<Rightarrow>
               (case gm_get subs subsID of
                  None \<Rightarrow> (st, Fail (errorMsg errBrokerStateMachine
                    (''Missing entry in destToSubsMap, for key: '' @ dest @ ''/'' @ subsID)))
                | Some info \<Rightarrow>
                    (case ack_update minimum info ackNum of
                       Ret info' \<Rightarrow>
                         (st\<lparr>destToSubsMap := (destToSubsMap st)(dest \<mapsto> gm_set subsID info' subs)\<rparr>, Ret ())
                     | Fail e \<Rightarrow> (st, Fail e)
                     | Panic p \<Rightarrow> (st, Panic p)
                     | Block \<Rightarrow> (st, Block)))))"

declare subs_at_def [go_eval] addSubscription_def [go_eval] removeSubscription_def [go_eval]
  cleanupSubscriptions_def [go_eval] fmtAckNum_def [go_eval] scanAckNum_def [go_eval]
  ack_update_def [go_eval] processAck_def [go_eval] empty_registry_def [go_eval]

section \<open>Acknowledgement numbers are read back\<close>

lemma no_colon_itoa: "COLON \<notin> set (itoa n)"
  by (rule not_in_itoa) simp_all

lemma split_fmtAckNum:
  "COLON \<notin> set dest \<Longrightarrow> COLON \<notin> set subsID \<Longrightarrow>
     split_on COLON (fmtAckNum dest subsID n) = [dest, subsID, itoa (uint n)]"
  by (simp add: fmtAckNum_def split_on_nosep no_colon_itoa)

lemma int64_uint32: "int64 (uint (n :: 32 word))"
proof -
  have "- (2 ^ 63) \<le> uint n" by (rule order_trans [OF _ uint_ge_0]) simp
  moreover have "uint n < 2 ^ 63" by (rule less_le_trans [OF uint_lt2p]) simp
  ultimately show ?thesis by (simp add: int64_def)
qed

lemma scanAckNum_fmtAckNum:
  "COLON \<notin> set dest \<Longrightarrow> COLON \<notin> set subsID \<Longrightarrow>
     scanAckNum (fmtAckNum dest subsID n) = Ret (dest, subsID, n)"
  by (simp add: scanAckNum_def split_fmtAckNum atoi_itoa [OF int64_uint32])

interpretation ack_number: codec "\<lambda>(dest, subsID, n). fmtAckNum dest subsID n"
  "\<lambda>s. case scanAckNum s of Ret x \<Rightarrow> Some x | _ \<Rightarrow> None"
  "\<lambda>(dest, subsID, n). COLON \<notin> set dest \<and> COLON \<notin> set subsID"
  by unfold_locales (auto simp: scanAckNum_fmtAckNum)

lemma scanAckNum_panic_iff: "is_panic (scanAckNum s) \<longleftrightarrow> count_list s COLON < 2"
  by (auto simp: scanAckNum_def Let_def length_split_on split: sum.splits)

section \<open>The cumulative acknowledgement\<close>

text \<open>What the loop removes is the run of consecutive numbers from \<open>i\<close> on.\<close>

lemma ack_run_interval:
  "\<exists>k. ack_run i S = S - {i + of_nat j | j. j < k} \<and> (\<forall>j < k. i + of_nat j \<in> S) \<and>
     i + of_nat k \<notin> ack_run i S"
proof (induction i S rule: ack_run.induct)
  case (1 i S)
  show ?case
  proof (cases "i \<in> S")
    case False
    then show ?thesis by (intro exI [of _ 0]) (simp add: ack_run.simps)
  next
    case True
    with "1.IH" obtain k where k: "ack_run (i + 1) (S - {i}) = S - {i} - {i + 1 + of_nat j | j. j < k}"
      "\<And>j. j < k \<Longrightarrow> i + 1 + of_nat j \<in> S - {i}" "i + 1 + of_nat k \<notin> ack_run (i + 1) (S - {i})" by auto
    have "{i + of_nat j | j. j < Suc k} = insert i {i + 1 + of_nat j | j. j < k}"
    proof -
      have "{j. j < Suc k} = insert 0 (Suc ` {j. j < k})" by (auto simp: image_iff less_Suc_eq_0_disj)
      then have "(\<lambda>j. i + of_nat j) ` {j. j < Suc k} = insert i ((\<lambda>j. i + 1 + of_nat j) ` {j. j < k})"
        by (simp add: image_image add.assoc)
      then show ?thesis by (simp add: setcompr_eq_image)
    qed
    moreover have "\<forall>j < Suc k. i + of_nat j \<in> S"
      using True k(2) by (auto simp: less_Suc_eq_0_disj add.assoc)
    moreover have "ack_run i S = ack_run (i + 1) (S - {i})"
      using True by (subst ack_run.simps) simp
    ultimately show ?thesis using k
      by (intro exI [of _ "Suc k"]) (auto simp: add.assoc)
  qed
qed

section \<open>Live subscriptions\<close>

text \<open>
  The subscription that an ID stands for: the destination it was last subscribed to, with
  its entry there. \<open>abs_registry\<close> is the map from an ID to its destination and session.
\<close>

definition live :: "registry \<Rightarrow> string \<Rightarrow> (string \<times> subsInfo) option" where
  "live st i =
     (case subsToDestMap st i of
        None \<Rightarrow> None
      | Some d \<Rightarrow> map_option (\<lambda>info. (d, info)) (gm_get (subs_at st d) i))"

definition abs_registry :: "registry \<Rightarrow> string \<Rightarrow> (string \<times> string) option" where
  "abs_registry st i = map_option (\<lambda>(d, info). (d, sessionHandler info)) (live st i)"

text \<open>
  The invariant: a destination has exactly one entry, the session of a live
  subscription has it in its set, and the sets have no duplicates.
\<close>

definition reg_inv :: "registry \<Rightarrow> bool" where
  "reg_inv st \<longleftrightarrow>
     (\<forall>d m. destToSubsMap st d = Some m \<longrightarrow> (\<exists>i info. m = [(i, info)])) \<and>
     (\<forall>i d info. live st i = Some (d, info) \<longrightarrow>
        (\<exists>ms. sessToSubsMap st (sessionHandler info) = Some ms \<and> i \<in> set ms)) \<and>
     (\<forall>s ms. sessToSubsMap st s = Some ms \<longrightarrow> distinct ms)"

lemma reg_inv_distinct: "reg_inv st \<Longrightarrow> sessToSubsMap st s = Some ms \<Longrightarrow> distinct ms"
  by (simp add: reg_inv_def)

lemma reg_inv_single: "reg_inv st \<Longrightarrow> destToSubsMap st d = Some m \<Longrightarrow> \<exists>i info. m = [(i, info)]"
  by (simp add: reg_inv_def)

lemma reg_inv_entry:
  assumes "reg_inv st" and "destToSubsMap st d = Some m" and "gm_get m i = Some info"
  shows "m = [(i, info)]"
proof -
  obtain j info' where "m = [(j, info')]" using reg_inv_single [OF assms(1,2)] by blast
  with assms(3) show ?thesis by (simp split: if_splits)
qed

lemma reg_invI:
  assumes "\<And>d m. destToSubsMap st d = Some m \<Longrightarrow> \<exists>i info. m = [(i, info)]"
    and "\<And>i d info. live st i = Some (d, info) \<Longrightarrow>
      \<exists>ms. sessToSubsMap st (sessionHandler info) = Some ms \<and> i \<in> set ms"
    and "\<And>s ms. sessToSubsMap st s = Some ms \<Longrightarrow> distinct ms"
  shows "reg_inv st"
  using assms unfolding reg_inv_def by blast

lemma reg_inv_subs_at: "reg_inv st \<Longrightarrow> subs_at st d = [] \<or> (\<exists>i info. subs_at st d = [(i, info)])"
  by (cases "destToSubsMap st d") (auto simp: subs_at_def dest: reg_inv_single)

lemma reg_inv_member:
  "reg_inv st \<Longrightarrow> live st i = Some (d, info) \<Longrightarrow>
     \<exists>ms. sessToSubsMap st (sessionHandler info) = Some ms \<and> i \<in> set ms"
  unfolding reg_inv_def by blast

lemma live_Some_iff:
  "live st i = Some (d, info) \<longleftrightarrow>
     subsToDestMap st i = Some d \<and>
     (\<exists>m. destToSubsMap st d = Some m \<and> gm_get m i = Some info)"
  by (auto simp: live_def subs_at_def split: option.splits)

lemma reg_inv_empty: "reg_inv empty_registry"
  by (simp add: reg_inv_def empty_registry_def live_def)

subsection \<open>Adding\<close>

lemma addSubscription_fail:
  "subsID = '''' \<or> dest = '''' \<Longrightarrow>
     fst (addSubscription dest subsID mode sess st) = st \<and> is_fail (snd (addSubscription dest subsID mode sess st))"
  by (auto simp: addSubscription_def)

lemma addSubscription_ok:
  assumes "subsID \<noteq> ''''" and "dest \<noteq> ''''" and "reg_inv st"
  shows "snd (addSubscription dest subsID mode sess st) = Ret ()"
    and "destToSubsMap (fst (addSubscription dest subsID mode sess st)) =
      (destToSubsMap st)(dest \<mapsto> [(subsID, \<lparr>sessionHandler = sess, ackMode = mode,
         nextAckNum = 0, pendingAckBitmap = {}\<rparr>)])"
    and "subsToDestMap (fst (addSubscription dest subsID mode sess st)) = (subsToDestMap st)(subsID \<mapsto> dest)"
    and "sessToSubsMap (fst (addSubscription dest subsID mode sess st)) =
      (sessToSubsMap st)(sess \<mapsto> List.insert subsID
        (case sessToSubsMap st sess of None \<Rightarrow> [] | Some ms \<Rightarrow> ms))"
  using assms reg_inv_subs_at [OF assms(3), of dest] by (auto simp: addSubscription_def)

lemma live_add:
  assumes "subsID \<noteq> ''''" and "dest \<noteq> ''''" and "reg_inv st"
  shows "live (fst (addSubscription dest subsID mode sess st)) i =
    (if i = subsID then Some (dest, \<lparr>sessionHandler = sess, ackMode = mode, nextAckNum = 0,
       pendingAckBitmap = {}\<rparr>)
     else (case live st i of
             None \<Rightarrow> None
           | Some (d, info) \<Rightarrow> if d = dest then None else Some (d, info)))"
  by (auto simp: live_def subs_at_def addSubscription_ok [OF assms] split: option.splits)

lemma reg_inv_add:
  assumes "reg_inv st"
  shows "reg_inv (fst (addSubscription dest subsID mode sess st))"
proof (cases "subsID = '''' \<or> dest = ''''")
  case False
  then have ok: "subsID \<noteq> ''''" "dest \<noteq> ''''" by auto
  show ?thesis
  proof (rule reg_invI)
    show "distinct ms" if "sessToSubsMap (fst (addSubscription dest subsID mode sess st)) s = Some ms" for s ms
      using that reg_inv_distinct [OF assms]
      by (auto simp: addSubscription_ok [OF ok assms] split: if_splits option.splits)
  qed (use reg_inv_single [OF assms] reg_inv_member [OF assms] in
        \<open>fastforce simp: live_add [OF ok assms] addSubscription_ok [OF ok assms] split: if_splits option.splits\<close>)+
qed (use assms addSubscription_fail in simp)

subsection \<open>Removing\<close>

lemma removeSubscription_not_ret:
  "snd (removeSubscription i st) \<noteq> Ret () \<Longrightarrow> fst (removeSubscription i st) = st"
  by (auto simp: removeSubscription_def Let_def split: option.splits)

lemma removeSubscription_ret:
  assumes "snd (removeSubscription i st) = Ret ()"
  obtains d info ms m where "live st i = Some (d, info)" and "destToSubsMap st d = Some m"
    and "gm_get m i = Some info" and "sessToSubsMap st (sessionHandler info) = Some ms"
    and "destToSubsMap (fst (removeSubscription i st)) =
      (destToSubsMap st)(d := (if gm_del i m = [] then None else Some (gm_del i m)))"
    and "subsToDestMap (fst (removeSubscription i st)) = (subsToDestMap st)(i := None)"
    and "sessToSubsMap (fst (removeSubscription i st)) =
      (sessToSubsMap st)(sessionHandler info \<mapsto> removeAll i ms)"
  using assms
  by (auto simp: removeSubscription_def Let_def live_def subs_at_def split: if_splits option.splits)

lemma removeSubscription_single:
  assumes "reg_inv st" and "snd (removeSubscription i st) = Ret ()"
  obtains d info ms where "live st i = Some (d, info)" and "destToSubsMap st d = Some [(i, info)]"
    and "sessToSubsMap st (sessionHandler info) = Some ms"
    and "destToSubsMap (fst (removeSubscription i st)) = (destToSubsMap st)(d := None)"
    and "subsToDestMap (fst (removeSubscription i st)) = (subsToDestMap st)(i := None)"
    and "sessToSubsMap (fst (removeSubscription i st)) =
      (sessToSubsMap st)(sessionHandler info \<mapsto> removeAll i ms)"
proof (rule removeSubscription_ret [OF assms(2)])
  fix d info ms m
  assume m: "destToSubsMap st d = Some m" "gm_get m i = Some info"
  then have "m = [(i, info)]" using reg_inv_entry [OF assms(1)] by blast
  moreover assume "live st i = Some (d, info)" "sessToSubsMap st (sessionHandler info) = Some ms"
    "destToSubsMap (fst (removeSubscription i st)) =
      (destToSubsMap st)(d := (if gm_del i m = [] then None else Some (gm_del i m)))"
    "subsToDestMap (fst (removeSubscription i st)) = (subsToDestMap st)(i := None)"
    "sessToSubsMap (fst (removeSubscription i st)) =
      (sessToSubsMap st)(sessionHandler info \<mapsto> removeAll i ms)"
  ultimately show thesis using m by (intro that [of d info ms]) simp_all
qed

lemma live_remove:
  assumes "reg_inv st" and "snd (removeSubscription i st) = Ret ()"
  shows "live (fst (removeSubscription i st)) j = (if j = i then None else live st j)"
proof (rule removeSubscription_single [OF assms])
  fix d info ms
  assume "live st i = Some (d, info)" "destToSubsMap st d = Some [(i, info)]"
    "destToSubsMap (fst (removeSubscription i st)) = (destToSubsMap st)(d := None)"
    "subsToDestMap (fst (removeSubscription i st)) = (subsToDestMap st)(i := None)"
  then show ?thesis by (auto simp: live_def subs_at_def split: option.splits)
qed

lemma reg_inv_remove:
  assumes "reg_inv st"
  shows "reg_inv (fst (removeSubscription i st))"
proof (cases "snd (removeSubscription i st) = Ret ()")
  case True
  show ?thesis
  proof (rule removeSubscription_single [OF assms True])
    fix d info ms
    assume a: "sessToSubsMap st (sessionHandler info) = Some ms"
      "destToSubsMap (fst (removeSubscription i st)) = (destToSubsMap st)(d := None)"
      "sessToSubsMap (fst (removeSubscription i st)) =
        (sessToSubsMap st)(sessionHandler info \<mapsto> removeAll i ms)"
    show ?thesis
    proof (rule reg_invI)
      show "\<exists>i info. m = [(i, info)]"
        if "destToSubsMap (fst (removeSubscription i st)) d' = Some m" for d' m
        using that reg_inv_single [OF assms, of d' m] by (auto simp: a(2) split: if_splits)
      show "\<exists>ms. sessToSubsMap (fst (removeSubscription i st)) (sessionHandler info') = Some ms \<and> j \<in> set ms"
        if "live (fst (removeSubscription i st)) j = Some (d', info')" for j d' info'
      proof -
        from that have j: "j \<noteq> i" "live st j = Some (d', info')"
          by (auto simp: live_remove [OF assms True] split: if_splits)
        with reg_inv_member [OF assms j(2)] a(1) show ?thesis by (auto simp: a(3))
      qed
      show "distinct ms'" if "sessToSubsMap (fst (removeSubscription i st)) s = Some ms'" for s ms'
        using that reg_inv_distinct [OF assms] a(1) by (auto simp: a(3) distinct_removeAll split: if_splits)
    qed
  qed
qed (use assms removeSubscription_not_ret in simp)

text \<open>
  The only panic is the read of an entry that a later subscriber of the same destination
  has evicted: the set of the session is always there.
\<close>

lemma removeSubscription_panic_iff:
  assumes "reg_inv st"
  shows "is_panic (snd (removeSubscription i st)) \<longleftrightarrow>
    i \<noteq> '''' \<and> (\<exists>d j info. subsToDestMap st i = Some d \<and> destToSubsMap st d = Some [(j, info)] \<and> j \<noteq> i)"
proof (cases "i = '''' \<or> subsToDestMap st i = None")
  case False
  then obtain d where i: "i \<noteq> ''''" "subsToDestMap st i = Some d" by auto
  show ?thesis
  proof (cases "destToSubsMap st d")
    case (Some m)
    with reg_inv_single [OF assms] obtain j info where m: "destToSubsMap st d = Some [(j, info)]"
      by blast
    show ?thesis
    proof (cases "j = i")
      case True
      with i m have "live st i = Some (d, info)" by (simp add: live_Some_iff)
      then obtain ms where "sessToSubsMap st (sessionHandler info) = Some ms"
        using reg_inv_member [OF assms] by blast
      with i m True show ?thesis by (simp add: removeSubscription_def Let_def)
    qed (use i m in \<open>simp add: removeSubscription_def\<close>)
  qed (use i in \<open>simp add: removeSubscription_def\<close>)
qed (auto simp: removeSubscription_def)

subsection \<open>Removing the subscriptions of a session\<close>

lemma remove_all_subs_inv: "reg_inv st \<Longrightarrow> reg_inv (fst (remove_all_subs ids st))"
proof (induction ids arbitrary: st)
  case (Cons i ids)
  obtain st' r where "removeSubscription i st = (st', r)" by (cases "removeSubscription i st")
  with reg_inv_remove [OF Cons.prems, of i] Cons.IH show ?case by (cases r) auto
qed simp

lemma live_remove_all:
  "reg_inv st \<Longrightarrow> snd (remove_all_subs ids st) = Ret () \<Longrightarrow>
     live (fst (remove_all_subs ids st)) j = (if j \<in> set ids then None else live st j)"
proof (induction ids arbitrary: st)
  case (Cons i ids)
  obtain st' r where r: "removeSubscription i st = (st', r)" by (cases "removeSubscription i st")
  with Cons.prems have ok: "snd (removeSubscription i st) = Ret ()" by (cases r) auto
  then show ?case
    using Cons r reg_inv_remove [OF Cons.prems(1), of i] live_remove [OF Cons.prems(1) ok, of j]
    by auto
qed simp

lemma live_sessToSubsMap_update [simp]: "live (st\<lparr>sessToSubsMap := m\<rparr>) = live st"
proof -
  have "subs_at (st\<lparr>sessToSubsMap := m\<rparr>) d = subs_at st d" for d by (simp add: subs_at_def)
  then show ?thesis by (simp add: live_def fun_eq_iff split: option.splits)
qed

lemma cleanup_live:
  assumes "reg_inv st" and "snd (cleanupSubscriptions ord s st) = Ret ()"
  shows "live (fst (cleanupSubscriptions ord s st)) j =
    (case sessToSubsMap st s of
       None \<Rightarrow> live st j
     | Some ms \<Rightarrow> if j \<in> set ms then None else live st j)"
proof (cases "sessToSubsMap st s")
  case (Some ms)
  with assms(2) obtain st' where "remove_all_subs (slice_of ord ms) st = (st', Ret ())"
    by (auto simp: cleanupSubscriptions_def split: prod.splits outcome.splits)
  with Some live_remove_all [OF assms(1), of "slice_of ord ms" j] show ?thesis
    by (simp add: cleanupSubscriptions_def)
qed (simp add: cleanupSubscriptions_def)

text \<open>After a successful clean-up the session has no live subscription.\<close>

lemma cleanup_session_gone:
  assumes "reg_inv st" and "snd (cleanupSubscriptions ord s st) = Ret ()"
    and "live (fst (cleanupSubscriptions ord s st)) j = Some (d, info)"
  shows "sessionHandler info \<noteq> s"
proof
  assume s: "sessionHandler info = s"
  from assms(3) have "live st j = Some (d, info)"
    by (auto simp: cleanup_live [OF assms(1,2)] split: option.splits if_splits)
  with reg_inv_member [OF assms(1)] s obtain ms where "sessToSubsMap st s = Some ms" "j \<in> set ms"
    by blast
  with assms(3) show False by (simp add: cleanup_live [OF assms(1,2)])
qed

lemma cleanup_sess_none:
  "snd (cleanupSubscriptions ord s st) = Ret () \<Longrightarrow>
     sessToSubsMap (fst (cleanupSubscriptions ord s st)) s = None"
  by (auto simp: cleanupSubscriptions_def split: option.splits prod.splits outcome.splits)

lemma reg_inv_drop_session:
  assumes "reg_inv st" and "\<And>j d info. live st j = Some (d, info) \<Longrightarrow> sessionHandler info \<noteq> s"
  shows "reg_inv (st\<lparr>sessToSubsMap := (sessToSubsMap st)(s := None)\<rparr>)"
  using assms(2) reg_inv_single [OF assms(1)] reg_inv_member [OF assms(1)] reg_inv_distinct [OF assms(1)]
  by (intro reg_invI) (auto split: if_splits)

lemma reg_inv_cleanup:
  assumes "reg_inv st"
  shows "reg_inv (fst (cleanupSubscriptions ord s st))"
proof (cases "sessToSubsMap st s")
  case None
  with assms show ?thesis by (simp add: cleanupSubscriptions_def)
next
  case (Some ms)
  obtain st' r where r: "remove_all_subs (slice_of ord ms) st = (st', r)"
    by (cases "remove_all_subs (slice_of ord ms) st")
  with remove_all_subs_inv [OF assms, of "slice_of ord ms"] have inv: "reg_inv st'" by simp
  show ?thesis
  proof (cases r)
    case (Ret u)
    then have ok: "snd (cleanupSubscriptions ord s st) = Ret ()"
      and eq: "fst (cleanupSubscriptions ord s st) = st'\<lparr>sessToSubsMap := (sessToSubsMap st')(s := None)\<rparr>"
      using Some r by (simp_all add: cleanupSubscriptions_def)
    have "sessionHandler info \<noteq> s" if "live st' j = Some (d, info)" for j d info
      using cleanup_session_gone [OF assms ok, of j d info] that unfolding eq by simp
    then show ?thesis unfolding eq using inv by (rule reg_inv_drop_session [rotated])
  qed (use inv r Some in \<open>simp_all add: cleanupSubscriptions_def\<close>)
qed

subsection \<open>Acknowledging\<close>

lemma ack_update_same:
  "ack_update minimum info n = Ret info' \<Longrightarrow>
     sessionHandler info' = sessionHandler info \<and> ackMode info' = ackMode info \<and>
     nextAckNum info' = nextAckNum info \<and> pendingAckBitmap info' \<subseteq> pendingAckBitmap info"
  using ack_run_interval
  by (auto simp: ack_update_def split: if_splits outcome.splits) blast

text \<open>An acknowledgement changes one entry, in place, and only its pending set.\<close>

lemma processAck_cases:
  assumes "fst (processAck minimum v st) \<noteq> st"
  obtains dest subsID n m info info' where "scanAckNum v = Ret (dest, subsID, n)"
      and "destToSubsMap st dest = Some m" and "gm_get m subsID = Some info"
      and "ack_update minimum info n = Ret info'"
      and "processAck minimum v st =
         (st\<lparr>destToSubsMap := (destToSubsMap st)(dest \<mapsto> gm_set subsID info' m)\<rparr>, Ret ())"
  using assms by (auto simp: processAck_def split: option.splits outcome.splits)

text \<open>
  The live subscriptions and their sessions are what they were.
\<close>

lemma live_ack:
  assumes "destToSubsMap st dest = Some m" and "gm_get m subsID = Some info"
  shows "live (st\<lparr>destToSubsMap := (destToSubsMap st)(dest \<mapsto> gm_set subsID info' m)\<rparr>) i =
    (if subsToDestMap st i = Some dest \<and> i = subsID then Some (dest, info') else live st i)"
  using assms by (auto simp: live_def subs_at_def split: option.splits)


lemma reg_inv_ack:
  assumes "reg_inv st"
  shows "reg_inv (fst (processAck minimum v st))"
proof (cases "fst (processAck minimum v st) = st")
  case False
  then show ?thesis
  proof (rule processAck_cases)
    fix dest subsID n m info info'
    assume a: "destToSubsMap st dest = Some m" "gm_get m subsID = Some info"
      "ack_update minimum info n = Ret info'"
      "processAck minimum v st =
         (st\<lparr>destToSubsMap := (destToSubsMap st)(dest \<mapsto> gm_set subsID info' m)\<rparr>, Ret ())"
    have m: "m = [(subsID, info)]" by (rule reg_inv_entry [OF assms a(1,2)])
    have same: "sessionHandler info' = sessionHandler info" using ack_update_same [OF a(3)] by simp
    have "reg_inv (st\<lparr>destToSubsMap := (destToSubsMap st)(dest \<mapsto> gm_set subsID info' m)\<rparr>)"
    proof (rule reg_invI, goal_cases)
      case (1 d m')
      with m reg_inv_single [OF assms, of d m'] show ?case by (auto split: if_splits)
    next
      case (2 i d j)
      then have "\<exists>j'. live st i = Some (d, j') \<and> sessionHandler j' = sessionHandler j"
        using a(1,2) same by (auto simp: live_ack live_Some_iff split: if_splits)
      with reg_inv_member [OF assms] show ?case by fastforce
    next
      case (3 s ms)
      with reg_inv_distinct [OF assms] show ?case by simp
    qed
    with a(4) show ?thesis by simp
  qed
qed (use assms in simp)

section \<open>The registry as a machine\<close>

datatype reg_op =
    RAdd string string AckMode string
  | RRemove string
  | RCleanup iteration string
  | RAck string

fun reg_step ::
  "(32 word set \<Rightarrow> 32 word result) \<Rightarrow> reg_op \<Rightarrow> registry \<Rightarrow> registry \<times> unit result" where
  "reg_step minimum (RAdd dest i mode sess) st = addSubscription dest i mode sess st"
| "reg_step minimum (RRemove i) st = removeSubscription i st"
| "reg_step minimum (RCleanup ord sess) st = cleanupSubscriptions ord sess st"
| "reg_step minimum (RAck v) st = processAck minimum v st"

interpretation reg_machine: machine "reg_step minimum" reg_inv "\<lambda>_. True" for minimum
proof
  fix st x
  assume "reg_inv st"
  then show "reg_inv (fst (reg_step minimum x st))"
    by (cases x) (simp_all add: reg_inv_add reg_inv_remove reg_inv_cleanup reg_inv_ack)
qed

text \<open>
  The live subscriptions as one map from IDs to destination and session. Subscribing
  evicts the other subscriptions of the destination.
\<close>

type_synonym spec_registry = "string \<Rightarrow> (string \<times> string) option"

definition spec_add :: "string \<Rightarrow> string \<Rightarrow> string \<Rightarrow> spec_registry \<Rightarrow> spec_registry" where
  "spec_add dest i sess R =
     (\<lambda>j. if j = i then Some (dest, sess)
          else (case R j of None \<Rightarrow> None | Some (d, s) \<Rightarrow> if d = dest then None else Some (d, s)))"

lemma abs_add:
  assumes "i \<noteq> ''''" and "dest \<noteq> ''''" and "reg_inv st"
  shows "abs_registry (fst (addSubscription dest i mode sess st)) = spec_add dest i sess (abs_registry st)"
  by (auto simp: fun_eq_iff abs_registry_def spec_add_def live_add [OF assms] split: option.splits)


lemma abs_unique_dest:
  assumes "reg_inv st" and "abs_registry st i = Some (d, s)" and "abs_registry st j = Some (d, s')"
  shows "i = j"
proof -
  have "\<exists>m. destToSubsMap st d = Some m \<and> gm_get m k \<noteq> None"
    if "abs_registry st k = Some (d, s'')" for k s''
    using that by (auto simp: abs_registry_def live_Some_iff)
  from this [OF assms(2)] this [OF assms(3)]
  obtain m where "destToSubsMap st d = Some m" "gm_get m i \<noteq> None" "gm_get m j \<noteq> None" by auto
  with reg_inv_single [OF assms(1)] show ?thesis by (fastforce split: if_splits)
qed

lemmas registry_keeps_inv = reg_inv_empty reg_inv_add reg_inv_remove reg_inv_cleanup reg_inv_ack

section \<open>Properties of all entries\<close>

text \<open>A property of the entries of the registry that each operation keeps.\<close>

definition entries :: "(string \<Rightarrow> string \<Rightarrow> subsInfo \<Rightarrow> bool) \<Rightarrow> registry \<Rightarrow> bool" where
  "entries P st \<longleftrightarrow> (\<forall>d m i info. destToSubsMap st d = Some m \<longrightarrow> (i, info) \<in> set m \<longrightarrow> P d i info)"

lemma entriesD: "entries P st \<Longrightarrow> destToSubsMap st d = Some m \<Longrightarrow> (i, info) \<in> set m \<Longrightarrow> P d i info"
  unfolding entries_def by blast

lemma entries_subs_at: "entries P st \<Longrightarrow> (i, info) \<in> set (subs_at st d) \<Longrightarrow> P d i info"
  by (cases "destToSubsMap st d") (auto simp: subs_at_def dest: entriesD)

lemma entries_empty: "entries P empty_registry"
  by (simp add: entries_def empty_registry_def)

lemma entries_add:
  assumes "entries P st"
    and new: "P dest i \<lparr>sessionHandler = sess, ackMode = mode, nextAckNum = 0, pendingAckBitmap = {}\<rparr>"
  shows "entries P (fst (addSubscription dest i mode sess st))"
  unfolding entries_def addSubscription_def
  using entries_subs_at [OF assms(1)] entriesD [OF assms(1)] new
  by (auto simp: Let_def dest!: gm_set_entries split: if_splits)

lemma entries_remove: "entries P st \<Longrightarrow> entries P (fst (removeSubscription i st))"
  unfolding entries_def removeSubscription_def
  by (auto simp: Let_def dest: gm_del_entries split: option.splits if_splits)

lemma entries_remove_all: "entries P st \<Longrightarrow> entries P (fst (remove_all_subs ids st))"
proof (induction ids arbitrary: st)
  case (Cons i ids)
  obtain st' r where "removeSubscription i st = (st', r)" by (cases "removeSubscription i st")
  with entries_remove [OF Cons.prems, of i] Cons.IH show ?case by (cases r) auto
qed simp

lemma entries_cleanup: "entries P st \<Longrightarrow> entries P (fst (cleanupSubscriptions ord s st))"
proof (cases "sessToSubsMap st s")
  case (Some ms)
  assume st: "entries P st"
  obtain st' r where r: "remove_all_subs (slice_of ord ms) st = (st', r)"
    by (cases "remove_all_subs (slice_of ord ms) st")
  with entries_remove_all [OF st, of "slice_of ord ms"] Some show ?thesis
    by (cases r) (simp_all add: cleanupSubscriptions_def entries_def)
qed (simp add: cleanupSubscriptions_def)

lemma entries_ack:
  assumes "entries P st"
    and keep: "\<And>d i n info info'. ack_update minimum info n = Ret info' \<Longrightarrow> P d i info \<Longrightarrow> P d i info'"
  shows "entries P (fst (processAck minimum v st))"
proof (cases "fst (processAck minimum v st) = st")
  case False
  then show ?thesis
  proof (rule processAck_cases)
    fix dest i n m info info'
    assume a: "destToSubsMap st dest = Some m" "gm_get m i = Some info" "ack_update minimum info n = Ret info'"
      "processAck minimum v st =
         (st\<lparr>destToSubsMap := (destToSubsMap st)(dest \<mapsto> gm_set i info' m)\<rparr>, Ret ())"
    have "P dest i info" using entriesD [OF assms(1) a(1)] a(2) by (auto dest: map_of_SomeD)
    from keep [OF a(3) this] entriesD [OF assms(1)] show ?thesis
      using a(1) by (auto simp: a(4) entries_def dest!: gm_set_entries split: if_splits)
  qed
qed (use assms(1) in simp)

text \<open>
  A subscription in mode \<open>auto\<close> (or with no mode) ignores acknowledgements; where all
  are, an ACK changes nothing.
\<close>

definition auto_mode :: "string \<Rightarrow> string \<Rightarrow> subsInfo \<Rightarrow> bool" where
  "auto_mode d i info \<longleftrightarrow> ackMode info = '''' \<or> ackMode info = HdrValAckAuto"

lemma ack_update_auto: "auto_mode d i info \<Longrightarrow> ack_update minimum info n = Ret info"
  by (auto simp: auto_mode_def ack_update_def)

lemma gm_set_same: "gm_get m i = Some x \<Longrightarrow> gm_set i x m = m"
  by (induction m) (auto split: if_splits)

lemma processAck_auto:
  assumes "entries auto_mode st"
  shows "fst (processAck minimum v st) = st"
proof (rule ccontr)
  assume "fst (processAck minimum v st) \<noteq> st"
  then show False
  proof (rule processAck_cases)
    fix dest i n m info info'
    assume a: "destToSubsMap st dest = Some m" "gm_get m i = Some info" "ack_update minimum info n = Ret info'"
      "processAck minimum v st =
         (st\<lparr>destToSubsMap := (destToSubsMap st)(dest \<mapsto> gm_set i info' m)\<rparr>, Ret ())"
    have "auto_mode dest i info" using entriesD [OF assms a(1)] a(2) by (auto dest: map_of_SomeD)
    from ack_update_auto [OF this] a have "fst (processAck minimum v st) = st"
      by (simp add: gm_set_same map_upd_triv)
    with \<open>fst (processAck minimum v st) \<noteq> st\<close> show False ..
  qed
qed

lemma processAck_panic_auto:
  assumes "entries auto_mode st"
  shows "is_panic (snd (processAck minimum v st)) \<longleftrightarrow> count_list v COLON < 2"
proof -
  have "is_panic (snd (processAck minimum v st)) \<longleftrightarrow> is_panic (scanAckNum v)"
  proof (cases "scanAckNum v")
    case (Ret x)
    obtain dest i n where x: "x = (dest, i, n)" by (cases x)
    have "ack_update minimum info n = Ret info"
      if "destToSubsMap st dest = Some m" "gm_get m i = Some info" for m info
      using ack_update_auto entriesD [OF assms that(1) map_of_SomeD [OF that(2)]] .
    with Ret x show ?thesis by (auto simp: processAck_def split: option.splits)
  qed (simp_all add: processAck_def)
  then show ?thesis by (simp add: scanAckNum_panic_iff)
qed

section \<open>The specification of the registry\<close>

text \<open>
  What the operations amount to, whatever the layout of the three maps: the subscription
  that gets the messages of a destination, with its session (what \<open>publish\<close> reads), the
  destination that an ID last subscribed to, and the IDs in the set of a session.
\<close>

record reg_spec =
  at_dest :: "string \<Rightarrow> (string \<times> string) option"
  last_dest :: "string \<Rightarrow> string option"
  ids_of :: "string \<Rightarrow> string set option"

definition subscriber_at :: "registry \<Rightarrow> string \<Rightarrow> (string \<times> string) option" where
  "subscriber_at r d = (case subs_at r d of [] \<Rightarrow> None | (i, info) # _ \<Rightarrow> Some (i, sessionHandler info))"

definition view :: "registry \<Rightarrow> reg_spec" where
  "view r = \<lparr>at_dest = subscriber_at r, last_dest = subsToDestMap r, ids_of = map_option set \<circ> sessToSubsMap r\<rparr>"

text \<open>
  The session that an ID gets its messages in: none when its destination has meanwhile been
  given to another ID, or to nobody. IDs that have one are \<open>current\<close>.
\<close>

definition holder :: "reg_spec \<Rightarrow> string \<Rightarrow> string option" where
  "holder R i =
     (case last_dest R i of
        None \<Rightarrow> None
      | Some d \<Rightarrow> (case at_dest R d of None \<Rightarrow> None | Some (j, s) \<Rightarrow> if j = i then Some s else None))"

definition current :: "reg_spec \<Rightarrow> string \<Rightarrow> bool" where
  "current R i \<longleftrightarrow> i \<noteq> '''' \<and> holder R i \<noteq> None"

definition unsubscribe_all :: "string set \<Rightarrow> reg_spec \<Rightarrow> reg_spec" where
  "unsubscribe_all I R =
     \<lparr>at_dest = (\<lambda>d. case at_dest R d of
          None \<Rightarrow> None
        | Some (i, s) \<Rightarrow> if i \<in> I \<and> last_dest R i = Some d then None else Some (i, s)),
      last_dest = (\<lambda>i. if i \<in> I then None else last_dest R i),
      ids_of = (\<lambda>s. map_option (\<lambda>J. J - {i \<in> I. holder R i = Some s}) (ids_of R s))\<rparr>"

definition subscribe_spec :: "string \<Rightarrow> string \<Rightarrow> string \<Rightarrow> reg_spec \<Rightarrow> reg_spec" where
  "subscribe_spec dest i sess R =
     \<lparr>at_dest = (at_dest R)(dest \<mapsto> (i, sess)),
      last_dest = (last_dest R)(i \<mapsto> dest),
      ids_of = (ids_of R)(sess \<mapsto> insert i (case ids_of R sess of None \<Rightarrow> {} | Some J \<Rightarrow> J))\<rparr>"

text \<open>\<open>None\<close>: the operation does not succeed.\<close>

fun spec_step :: "reg_op \<Rightarrow> reg_spec \<Rightarrow> reg_spec option" where
  "spec_step (RAdd dest i mode sess) R =
     (if i = '''' \<or> dest = '''' then None else Some (subscribe_spec dest i sess R))"
| "spec_step (RRemove i) R = (if current R i then Some (unsubscribe_all {i} R) else None)"
| "spec_step (RCleanup ord sess) R =
     (case ids_of R sess of
        None \<Rightarrow> Some R
      | Some I \<Rightarrow>
          if \<forall>i \<in> I. current R i
          then Some (unsubscribe_all I R\<lparr>ids_of := (ids_of (unsubscribe_all I R))(sess := None)\<rparr>)
          else None)"
| "spec_step (RAck v) R = Some R"

text \<open>What an operation that does not succeed leaves behind.\<close>

fun partial_step :: "reg_op \<Rightarrow> reg_spec \<Rightarrow> reg_spec \<Rightarrow> bool" where
  "partial_step (RCleanup ord sess) R R' =
     (\<exists>I J. ids_of R sess = Some J \<and> I \<subset> J \<and> (\<forall>i \<in> I. current R i) \<and> R' = unsubscribe_all I R)"
| "partial_step x R R' = (R' = R)"

lemma view_simps [simp]:
  "at_dest (view r) = subscriber_at r" "last_dest (view r) = subsToDestMap r"
  "ids_of (view r) s = map_option set (sessToSubsMap r s)"
  by (simp_all add: view_def)

lemma subscriber_at_iff:
  "reg_inv r \<Longrightarrow> subscriber_at r d = Some (i, s) \<longleftrightarrow>
     (\<exists>info. destToSubsMap r d = Some [(i, info)] \<and> sessionHandler info = s)"
  by (cases "destToSubsMap r d") (auto simp: subscriber_at_def subs_at_def dest: reg_inv_single)

lemma subscriber_at_cong: "destToSubsMap r' = destToSubsMap r \<Longrightarrow> subscriber_at r' = subscriber_at r"
  by (simp add: fun_eq_iff subscriber_at_def subs_at_def)

lemma holder_view:
  assumes "reg_inv r"
  shows "holder (view r) i = map_option (sessionHandler \<circ> snd) (live r i)"
proof (cases "subsToDestMap r i")
  case (Some d)
  show ?thesis
  proof (cases "destToSubsMap r d")
    case None
    with Some show ?thesis by (simp add: holder_def live_def subscriber_at_def subs_at_def)
  next
    case (Some m)
    with \<open>subsToDestMap r i = Some d\<close> reg_inv_single [OF assms Some] show ?thesis
      by (auto simp: holder_def live_def subscriber_at_def subs_at_def)
  qed
qed (simp add: holder_def live_def)

lemma remove_ret_iff:
  assumes "reg_inv r"
  shows "snd (removeSubscription i r) = Ret () \<longleftrightarrow> current (view r) i"
proof -
  have "snd (removeSubscription i r) = Ret ()" if "i \<noteq> ''''" "live r i = Some (d, info)" for d info
    using that reg_inv_member [OF assms that(2)] by (auto simp: live_Some_iff removeSubscription_def Let_def)
  moreover have "i \<noteq> ''''" "live r i \<noteq> None" if "snd (removeSubscription i r) = Ret ()"
    using that by (simp add: removeSubscription_def split: if_splits) (rule removeSubscription_ret [OF that], simp)
  ultimately show ?thesis by (auto simp: current_def holder_view [OF assms])
qed

lemma view_add:
  assumes "i \<noteq> ''''" and "dest \<noteq> ''''" and "reg_inv r"
  shows "view (fst (addSubscription dest i mode sess r)) = subscribe_spec dest i sess (view r)"
  by (auto simp: view_def subscribe_spec_def addSubscription_ok [OF assms] fun_eq_iff subscriber_at_def
      subs_at_def split: option.splits)

lemma view_remove:
  assumes "reg_inv r" and "snd (removeSubscription i r) = Ret ()"
  shows "view (fst (removeSubscription i r)) = unsubscribe_all {i} (view r)"
proof (rule removeSubscription_single [OF assms])
  fix d info ms
  let ?r' = "fst (removeSubscription i r)"
  assume a: "live r i = Some (d, info)" "destToSubsMap r d = Some [(i, info)]"
    "sessToSubsMap r (sessionHandler info) = Some ms"
    "destToSubsMap ?r' = (destToSubsMap r)(d := None)" "subsToDestMap ?r' = (subsToDestMap r)(i := None)"
    "sessToSubsMap ?r' = (sessToSubsMap r)(sessionHandler info \<mapsto> removeAll i ms)"
  have d: "subsToDestMap r i = Some d" using a(1) by (simp add: live_Some_iff)
  have at: "subscriber_at ?r' = (subscriber_at r)(d := None)"
    by (simp add: fun_eq_iff subscriber_at_def subs_at_def a(4))
  have "subscriber_at r d = Some (i, sessionHandler info)" by (simp add: subscriber_at_def subs_at_def a(2))
  with at d have "subscriber_at ?r' = at_dest (unsubscribe_all {i} (view r))"
    by (auto simp: fun_eq_iff unsubscribe_all_def split: option.splits)
  moreover have "map_option set \<circ> sessToSubsMap ?r' = ids_of (unsubscribe_all {i} (view r))"
    by (auto simp: fun_eq_iff unsubscribe_all_def holder_view [OF assms(1)] a(1,3,6) option.map_comp comp_def
        intro!: option.map_cong)
  moreover have "subsToDestMap ?r' = last_dest (unsubscribe_all {i} (view r))"
    by (auto simp: fun_eq_iff unsubscribe_all_def a(5))
  ultimately show ?thesis by (simp add: view_def)
qed

subsection \<open>Removing several subscriptions\<close>

lemma unsubscribe_none [simp]: "unsubscribe_all {} R = R"
  by (auto simp: unsubscribe_all_def fun_eq_iff option.map_ident split: option.splits intro!: reg_spec.equality)

lemma unsubscribe_simps [simp]:
  "last_dest (unsubscribe_all I R) i = (if i \<in> I then None else last_dest R i)"
  "at_dest (unsubscribe_all I R) d = (case at_dest R d of None \<Rightarrow> None
     | Some (i, s) \<Rightarrow> if i \<in> I \<and> last_dest R i = Some d then None else Some (i, s))"
  by (simp_all add: unsubscribe_all_def)

lemma holder_unsubscribe [simp]: "j \<notin> I \<Longrightarrow> holder (unsubscribe_all I R) j = holder R j"
  by (auto simp: holder_def split: option.splits)

lemma current_unsubscribe [simp]: "j \<notin> I \<Longrightarrow> current (unsubscribe_all I R) j = current R j"
  by (simp add: current_def)

lemma unsubscribe_insert:
  assumes "i \<notin> I"
  shows "unsubscribe_all I (unsubscribe_all {i} R) = unsubscribe_all (insert i I) R"
proof -
  have ids: "J - {k \<in> {i}. holder R k = Some s} - {k \<in> I. holder (unsubscribe_all {i} R) k = Some s} =
      J - {k \<in> insert i I. holder R k = Some s}" for J s
  proof -
    have "holder (unsubscribe_all {i} R) k = holder R k" if "k \<in> I" for k
      using assms that by (intro holder_unsubscribe) auto
    then show ?thesis by auto
  qed
  have "ids_of (unsubscribe_all I (unsubscribe_all {i} R)) = ids_of (unsubscribe_all (insert i I) R)"
    using ids by (simp add: unsubscribe_all_def [of I] unsubscribe_all_def [of "insert i I"] fun_eq_iff)
      (simp add: unsubscribe_all_def [of "{i}"] option.map_comp comp_def)
  then show ?thesis
    using assms by (intro reg_spec.equality) (auto simp: fun_eq_iff split: option.splits if_splits)
qed

text \<open>
  The loop of a clean-up removes the IDs up to the first one that is not current; that one is
  left as it was.
\<close>

lemma remove_all_view:
  assumes "reg_inv r" and "distinct ids"
  shows "if \<forall>i \<in> set ids. current (view r) i
    then snd (remove_all_subs ids r) = Ret () \<and> view (fst (remove_all_subs ids r)) = unsubscribe_all (set ids) (view r)
    else snd (remove_all_subs ids r) \<noteq> Ret () \<and> (\<exists>I \<subset> set ids. (\<forall>i \<in> I. current (view r) i) \<and>
      view (fst (remove_all_subs ids r)) = unsubscribe_all I (view r))"
  using assms
proof (induction ids arbitrary: r)
  case (Cons i ids)
  obtain r' x where rm: "removeSubscription i r = (r', x)" by fastforce
  show ?case
  proof (cases "current (view r) i")
    case True
    with rm remove_ret_iff [OF Cons.prems(1), of i] have x: "x = Ret ()" by simp
    with rm view_remove [OF Cons.prems(1), of i] have v: "view r' = unsubscribe_all {i} (view r)" by simp
    have inv: "reg_inv r'" using rm reg_inv_remove [OF Cons.prems(1), of i] by simp
    have cur: "current (view r') j = current (view r) j" if "j \<in> set ids" for j
      using that Cons.prems(2) by (simp add: v) (metis current_unsubscribe singletonD)
    have comp: "unsubscribe_all I (view r') = unsubscribe_all (insert i I) (view r)" if "I \<subseteq> set ids" for I
      using that Cons.prems(2) by (subst v, intro unsubscribe_insert) auto
    note rec = rm x
    show ?thesis
    proof (cases "\<forall>j \<in> set ids. current (view r) j")
      case all: True
      with Cons.IH [OF inv] Cons.prems(2) cur comp [of "set ids"] True show ?thesis by (simp add: rec)
    next
      case some: False
      with Cons.IH [OF inv] Cons.prems(2) cur have not_ret: "snd (remove_all_subs ids r') \<noteq> Ret ()"
        and "\<exists>I \<subset> set ids. (\<forall>j \<in> I. current (view r') j) \<and> view (fst (remove_all_subs ids r')) = unsubscribe_all I (view r')"
        by auto
      then obtain I where I: "I \<subset> set ids" "\<forall>j \<in> I. current (view r') j"
        "view (fst (remove_all_subs ids r')) = unsubscribe_all I (view r')" by blast
      have "insert i I \<subset> set (i # ids)" using I(1) Cons.prems(2) by auto
      moreover have "\<forall>j \<in> insert i I. current (view r) j" using I(1,2) cur True by auto
      ultimately show ?thesis using some not_ret I comp [of I] by (auto simp: rec intro!: exI [of _ "insert i I"])
    qed
  next
    case False
    with rm remove_ret_iff [OF Cons.prems(1), of i] removeSubscription_not_ret [of i r]
    have "x \<noteq> Ret ()" "r' = r" by auto
    with False rm show ?thesis by (cases x) (auto intro!: exI [of _ "{}"])
  qed
qed simp

lemma view_drop_session:
  "view (r\<lparr>sessToSubsMap := (sessToSubsMap r)(s := None)\<rparr>) = view r\<lparr>ids_of := (ids_of (view r))(s := None)\<rparr>"
  by (auto simp: view_def subscriber_at_def subs_at_def fun_eq_iff)

lemma view_cleanup:
  assumes "reg_inv r"
  shows "case spec_step (RCleanup ord s) (view r) of
      Some R \<Rightarrow> view (fst (cleanupSubscriptions ord s r)) = R \<and> snd (cleanupSubscriptions ord s r) = Ret ()
    | None \<Rightarrow> snd (cleanupSubscriptions ord s r) \<noteq> Ret () \<and>
        partial_step (RCleanup ord s) (view r) (view (fst (cleanupSubscriptions ord s r)))"
proof (cases "sessToSubsMap r s")
  case (Some ms)
  have "distinct (slice_of ord ms)" using reg_inv_distinct [OF assms Some] by simp
  note loop = remove_all_view [OF assms this]
  obtain r' x where rm: "remove_all_subs (slice_of ord ms) r = (r', x)" by fastforce
  show ?thesis
  proof (cases "\<forall>i \<in> set ms. current (view r) i")
    case True
    with loop rm have "x = Ret ()" "view r' = unsubscribe_all (set ms) (view r)" by simp_all
    with True Some rm show ?thesis by (simp add: cleanupSubscriptions_def view_drop_session)
  next
    case False
    with loop rm obtain I where "x \<noteq> Ret ()" "I \<subset> set ms" "\<forall>i \<in> I. current (view r) i"
      "view r' = unsubscribe_all I (view r)" by auto
    with False Some rm show ?thesis by (cases x) (auto simp: cleanupSubscriptions_def)
  qed
qed (simp add: cleanupSubscriptions_def)

lemma view_ack:
  assumes "reg_inv r"
  shows "view (fst (processAck minimum v r)) = view r"
proof (cases "fst (processAck minimum v r) = r")
  case False
  then show ?thesis
  proof (rule processAck_cases)
    fix dest i n m info info'
    assume a: "destToSubsMap r dest = Some m" "gm_get m i = Some info" "ack_update minimum info n = Ret info'"
      "processAck minimum v r =
         (r\<lparr>destToSubsMap := (destToSubsMap r)(dest \<mapsto> gm_set i info' m)\<rparr>, Ret ())"
    have "m = [(i, info)]" by (rule reg_inv_entry [OF assms a(1,2)])
    with a(1,4) ack_update_same [OF a(3)] show ?thesis
      by (auto simp: view_def subscriber_at_def subs_at_def fun_eq_iff)
  qed
qed simp

section \<open>When a clean-up panics\<close>

text \<open>A subscription that a later subscriber of its destination has displaced.\<close>

definition evicted :: "registry \<Rightarrow> string \<Rightarrow> bool" where
  "evicted r i \<longleftrightarrow> i \<noteq> '''' \<and>
     (\<exists>d j info. subsToDestMap r i = Some d \<and> destToSubsMap r d = Some [(j, info)] \<and> j \<noteq> i)"

text \<open>
  Removing the IDs in this order meets an evicted subscription: those before it can all be
  removed, and none of them is the one that displaced it, which would take the destination
  out of the map.
\<close>

definition meets_evicted :: "registry \<Rightarrow> string list \<Rightarrow> bool" where
  "meets_evicted r ids \<longleftrightarrow>
     (\<exists>pre j post. ids = pre @ j # post \<and> evicted r j \<and>
        (\<forall>i \<in> set pre. current (view r) i \<and> subsToDestMap r i \<noteq> subsToDestMap r j))"

lemma split_Cons_iff:
  "(\<exists>pre j post. x # xs = pre @ j # post \<and> P pre j) \<longleftrightarrow> P [] x \<or> (\<exists>pre j post. xs = pre @ j # post \<and> P (x # pre) j)"
proof
  assume "\<exists>pre j post. x # xs = pre @ j # post \<and> P pre j"
  then obtain pre j post where "x # xs = pre @ j # post" "P pre j" by blast
  then show "P [] x \<or> (\<exists>pre j post. xs = pre @ j # post \<and> P (x # pre) j)" by (cases pre) auto
next
  assume "P [] x \<or> (\<exists>pre j post. xs = pre @ j # post \<and> P (x # pre) j)"
  then show "\<exists>pre j post. x # xs = pre @ j # post \<and> P pre j"
    by (metis append_Cons append_Nil)
qed

lemma meets_evicted_Cons:
  "meets_evicted r (i # ids) \<longleftrightarrow>
     evicted r i \<or> current (view r) i \<and>
       (\<exists>pre j post. ids = pre @ j # post \<and> evicted r j \<and> subsToDestMap r i \<noteq> subsToDestMap r j \<and>
          (\<forall>k \<in> set pre. current (view r) k \<and> subsToDestMap r k \<noteq> subsToDestMap r j))"
  unfolding meets_evicted_def split_Cons_iff [of i ids] by auto

lemma evicted_not_current: "reg_inv r \<Longrightarrow> evicted r i \<Longrightarrow> \<not> current (view r) i"
  using removeSubscription_panic_iff [of r i] remove_ret_iff [of r i]
  by (auto simp: evicted_def)

lemma remove_all_panic_iff:
  "reg_inv r \<Longrightarrow> distinct ids \<Longrightarrow> is_panic (snd (remove_all_subs ids r)) \<longleftrightarrow> meets_evicted r ids"
proof (induction ids arbitrary: r)
  case (Cons i ids)
  obtain r' x where rm: "removeSubscription i r = (r', x)" by fastforce
  have panic: "is_panic x \<longleftrightarrow> evicted r i"
    using removeSubscription_panic_iff [OF Cons.prems(1), of i] rm by (simp add: evicted_def)
  show ?case
  proof (cases "current (view r) i")
    case False
    with rm remove_ret_iff [OF Cons.prems(1), of i] have "x \<noteq> Ret ()" by simp
    with rm have "snd (remove_all_subs (i # ids) r) = x" by (cases x) auto
    with panic False show ?thesis by (simp add: meets_evicted_Cons)
  next
    case True
    then have ret: "snd (removeSubscription i r) = Ret ()" using remove_ret_iff [OF Cons.prems(1)] by simp
    then have x: "x = Ret ()" using rm by simp
    show ?thesis
    proof (rule removeSubscription_single [OF Cons.prems(1) ret])
      fix d info ms
      assume a: "live r i = Some (d, info)" "destToSubsMap r d = Some [(i, info)]"
        "destToSubsMap (fst (removeSubscription i r)) = (destToSubsMap r)(d := None)"
        "subsToDestMap (fst (removeSubscription i r)) = (subsToDestMap r)(i := None)"
      have d: "subsToDestMap r i = Some d" using a(1) by (simp add: live_Some_iff)
      have ev: "evicted r' j \<longleftrightarrow> evicted r j \<and> subsToDestMap r i \<noteq> subsToDestMap r j" if "j \<noteq> i" for j
        using that a(3,4) rm d by (auto simp: evicted_def)
      have cur: "current (view r') j = current (view r) j" if "j \<noteq> i" for j
        using that view_remove [OF Cons.prems(1) ret] rm by simp
      have sub: "subsToDestMap r' j = subsToDestMap r j" if "j \<noteq> i" for j
        using that a(4) rm by simp
      have "meets_evicted r' ids \<longleftrightarrow> meets_evicted r (i # ids)"
      proof -
        have "\<not> evicted r i" using True evicted_not_current [OF Cons.prems(1)] by blast
        moreover have "(ids = pre @ j # post \<and> evicted r' j \<and>
              (\<forall>k \<in> set pre. current (view r') k \<and> subsToDestMap r' k \<noteq> subsToDestMap r' j)) \<longleftrightarrow>
            (ids = pre @ j # post \<and> evicted r j \<and> subsToDestMap r i \<noteq> subsToDestMap r j \<and>
              (\<forall>k \<in> set pre. current (view r) k \<and> subsToDestMap r k \<noteq> subsToDestMap r j))" for pre j post
        proof (cases "ids = pre @ j # post")
          case split: True
          with Cons.prems(2) have "j \<noteq> i" "\<And>k. k \<in> set pre \<Longrightarrow> k \<noteq> i" by auto
          then show ?thesis by (auto simp: split ev cur sub)
        qed simp
        ultimately show ?thesis using True by (simp add: meets_evicted_Cons) (simp add: meets_evicted_def)
      qed
      with Cons.IH [of r'] Cons.prems reg_inv_remove [OF Cons.prems(1), of i] rm x show ?thesis by simp
    qed
  qed
qed (simp add: meets_evicted_def)

lemma cleanup_panic_iff:
  assumes "reg_inv r"
  shows "is_panic (snd (cleanupSubscriptions ord s r)) \<longleftrightarrow>
    (\<exists>ms. sessToSubsMap r s = Some ms \<and> meets_evicted r (slice_of ord ms))"
proof (cases "sessToSubsMap r s")
  case (Some ms)
  then have "distinct (slice_of ord ms)" using reg_inv_distinct [OF assms] by simp
  note loop = remove_all_panic_iff [OF assms this]
  obtain r' x where "remove_all_subs (slice_of ord ms) r = (r', x)" by fastforce
  with Some loop show ?thesis by (cases x) (auto simp: cleanupSubscriptions_def)
qed (simp add: cleanupSubscriptions_def)

section \<open>Properties\<close>

text \<open>
  C11. Whatever subscribers, unsubscribers, disconnects and acknowledgements do from the empty
  registry on, the registry stays consistent (every live subscription is in the set of its
  session), and a destination never has more than one live subscription.
\<close>

theorem registry_one_subscriber:
  "reg_inv (run_ops (reg_step minimum) ops empty_registry) \<and>
   (\<exists>i. {j. \<exists>s. abs_registry (run_ops (reg_step minimum) ops empty_registry) j = Some (d, s)} \<subseteq> {i})"
proof -
  let ?st = "run_ops (reg_step minimum) ops empty_registry"
  have inv: "reg_inv ?st" by (rule reg_machine.run_inv [OF reg_inv_empty]) simp
  show ?thesis
  proof (cases "\<exists>i s. abs_registry ?st i = Some (d, s)")
    case True
    then obtain i s where "abs_registry ?st i = Some (d, s)" by blast
    with inv abs_unique_dest [OF inv] show ?thesis by blast
  qed (use inv in auto)
qed

text \<open>
  C7. The registry refines a specification that knows, for each destination, the one
  subscription that messages go to, for each ID, the destination it last subscribed to, and for
  each session, its set of IDs. An operation succeeds exactly when the specification allows
  it and then has exactly the effect that the specification says on all three, whatever order
  a clean-up follows: in particular an ID that is unsubscribed gets no message any more, and
  a subscription takes the place of the one that its destination had. An operation that fails
  changes nothing, except a clean-up, which may have removed some of the session's current
  subscriptions. An acknowledgement changes none of the three.
\<close>

theorem registry_refines:
  assumes "reg_inv st"
  shows "case spec_step x (view st) of
      Some R \<Rightarrow> view (fst (reg_step minimum x st)) = R \<and>
        ((\<nexists>v. x = RAck v) \<longrightarrow> snd (reg_step minimum x st) = Ret ())
    | None \<Rightarrow> snd (reg_step minimum x st) \<noteq> Ret () \<and> partial_step x (view st) (view (fst (reg_step minimum x st)))"
proof (cases x)
  case (RAdd dest i mode sess)
  with view_add [OF _ _ assms, of i dest mode sess] addSubscription_fail [of i dest mode sess st]
    addSubscription_ok(1) [OF _ _ assms, of i dest mode sess]
  show ?thesis by auto
next
  case (RRemove i)
  with view_remove [OF assms, of i] remove_ret_iff [OF assms, of i] removeSubscription_not_ret [of i st]
  show ?thesis by auto
next
  case (RCleanup ord sess)
  with view_cleanup [OF assms, of ord sess] show ?thesis
    by (cases "spec_step x (view st)") (simp_all del: spec_step.simps partial_step.simps)
next
  case (RAck v)
  then show ?thesis by (simp add: view_ack [OF assms])
qed

theorem registry_refines_witness:
  "at_dest (view (fst (removeSubscription ''1'' (fst (addSubscription ''/q'' ''1'' '''' ''s'' empty_registry))))) ''/q'' = None"
proof -
  let ?st = "fst (addSubscription ''/q'' ''1'' '''' ''s'' empty_registry)"
  have "reg_inv ?st" by (rule reg_inv_add [OF reg_inv_empty])
  from registry_refines [OF this, where x = "RRemove ''1''"] show ?thesis
    by (simp add: subscriber_at_def addSubscription_def empty_registry_def subs_at_def current_def
        holder_def unsubscribe_all_def Let_def)
qed

text \<open>
  C29. When two clients subscribe to one destination, the first one's UNSUBSCRIBE
  dereferences a nil pointer: its entry has been dropped, its ID has not.
\<close>

theorem eviction_panics:
  assumes "reg_inv r" and "i \<noteq> ''''" "j \<noteq> ''''" "d \<noteq> ''''" "i \<noteq> j"
    and r1: "r1 = fst (addSubscription d i mode sess r)"
    and r2: "r2 = fst (addSubscription d j mode' sess' r1)"
  shows "snd (removeSubscription i r2) = Panic NilDeref"
proof -
  have inv: "reg_inv r1" unfolding r1 by (rule reg_inv_add [OF assms(1)])
  have "subsToDestMap r2 i = Some d"
    using assms(5) addSubscription_ok(3) [OF assms(2,4,1), of mode sess]
    unfolding r2 addSubscription_ok(3) [OF assms(3,4) inv] by (simp add: r1)
  moreover have "\<exists>info. destToSubsMap r2 d = Some [(j, info)]"
    by (simp add: r2 addSubscription_ok(2) [OF assms(3,4) inv])
  ultimately show ?thesis using assms(2,5) by (auto simp: removeSubscription_def)
qed

theorem eviction_panics_witness:
  "snd (removeSubscription ''1'' (fst (addSubscription ''/q'' ''2'' '''' ''t''
     (fst (addSubscription ''/q'' ''1'' '''' ''s'' empty_registry))))) = Panic NilDeref"
  by (rule eviction_panics [OF reg_inv_empty _ _ _ _ refl refl]) simp_all

text \<open>
  In a consistent registry UNSUBSCRIBE panics on exactly the IDs whose destination has been
  taken over by a later subscriber.
\<close>

theorem unsubscribe_panics_iff:
  assumes "reg_inv st"
  shows "is_panic (snd (removeSubscription i st)) \<longleftrightarrow>
    i \<noteq> '''' \<and> (\<exists>d j info. subsToDestMap st i = Some d \<and> destToSubsMap st d = Some [(j, info)] \<and> j \<noteq> i)"
  by (rule removeSubscription_panic_iff [OF assms])

theorem unsubscribe_panics_iff_witness:
  "is_panic (snd (removeSubscription ''1'' empty_registry)) \<longleftrightarrow>
    ''1'' \<noteq> '''' \<and> (\<exists>d j info. subsToDestMap empty_registry ''1'' = Some d \<and>
      destToSubsMap empty_registry d = Some [(j, info)] \<and> j \<noteq> ''1'')"
  by (rule unsubscribe_panics_iff [OF reg_inv_empty])

text \<open>
  A clean-up that succeeds leaves the session without a live subscription and without a
  set, and keeps every live subscription whose ID the session never used.
\<close>

theorem cleanup_complete:
  assumes "reg_inv st" and "snd (cleanupSubscriptions ord s st) = Ret ()"
  shows "(\<nexists>j d. abs_registry (fst (cleanupSubscriptions ord s st)) j = Some (d, s)) \<and>
    sessToSubsMap (fst (cleanupSubscriptions ord s st)) s = None \<and>
    (\<forall>j. (\<exists>ms. sessToSubsMap st s = Some ms \<and> j \<in> set ms) \<or>
         abs_registry (fst (cleanupSubscriptions ord s st)) j = abs_registry st j)"
  using cleanup_session_gone [OF assms] cleanup_sess_none [OF assms(2)] cleanup_live [OF assms]
  by (auto simp: abs_registry_def split: option.splits)

theorem cleanup_complete_witness:
  "sessToSubsMap (fst (cleanupSubscriptions (\<lambda>_ _. 0) ''s''
     (fst (addSubscription ''/q'' ''1'' '''' ''s'' empty_registry)))) ''s'' = None"
proof -
  let ?st = "fst (addSubscription ''/q'' ''1'' '''' ''s'' empty_registry)"
  have "reg_inv ?st" by (rule reg_inv_add [OF reg_inv_empty])
  moreover have "snd (cleanupSubscriptions (\<lambda>_ _. 0) ''s'' ?st) = Ret ()" by (simp add: go_eval Let_def)
  ultimately show ?thesis using cleanup_complete by blast
qed

text \<open>
  The acknowledgement number that the broker puts in a MESSAGE is read back from the ACK to the
  same destination, subscription and 32-bit number, as long as neither name has a colon.
\<close>

theorem ack_number_round_trip:
  assumes "COLON \<notin> set dest" and "COLON \<notin> set subsID"
  shows "scanAckNum (fmtAckNum dest subsID n) = Ret (dest, subsID, n)"
  by (rule scanAckNum_fmtAckNum [OF assms])

theorem ack_number_round_trip_witness: "scanAckNum (fmtAckNum ''/q'' ''1'' (- 1)) = Ret (''/q'', ''1'', - 1)"
  by (rule ack_number_round_trip) simp_all

text \<open>
  Reading an acknowledgement number panics on exactly the values with fewer than two
  colons, so a short \<open>id\<close> header in an ACK frame panics the broker.
\<close>

theorem scanAckNum_panics_iff: "is_panic (scanAckNum s) \<longleftrightarrow> count_list s COLON < 2"
  by (rule scanAckNum_panic_iff)

text \<open>
  C32. An acknowledgement in client mode removes the whole run of consecutive pending numbers from
  the smallest one on, and nothing else; it stops also when the 32-bit counter wraps around,
  and which number was acknowledged plays no part.
\<close>

theorem cumulative_ack:
  assumes "ackMode info = HdrValAckClient" and "minimum (pendingAckBitmap info) = Ret i"
  shows "\<exists>k. ack_update minimum info ackNum =
      Ret (info\<lparr>pendingAckBitmap := pendingAckBitmap info - {i + of_nat j | j. j < k}\<rparr>) \<and>
    {i + of_nat j | j. j < k} \<subseteq> pendingAckBitmap info \<and>
    i + of_nat k \<notin> pendingAckBitmap info - {i + of_nat j | j. j < k}"
proof -
  obtain k where "ack_run i (pendingAckBitmap info) = pendingAckBitmap info - {i + of_nat j | j. j < k}"
    "\<forall>j < k. i + of_nat j \<in> pendingAckBitmap info" "i + of_nat k \<notin> ack_run i (pendingAckBitmap info)"
    using ack_run_interval [of i "pendingAckBitmap info"] by blast
  with assms show ?thesis by (intro exI [of _ k]) (auto simp: ack_update_def)
qed

theorem cumulative_ack_witness:
  "\<exists>k. ack_update (\<lambda>_. Ret 4) \<lparr>sessionHandler = ''s'', ackMode = HdrValAckClient, nextAckNum = 7,
        pendingAckBitmap = {4, 6}\<rparr> 6 =
      Ret \<lparr>sessionHandler = ''s'', ackMode = HdrValAckClient, nextAckNum = 7,
        pendingAckBitmap = {4, 6} - {4 + of_nat j | j. j < k}\<rparr>"
  using cumulative_ack [of "\<lparr>sessionHandler = ''s'', ackMode = HdrValAckClient, nextAckNum = 7,
        pendingAckBitmap = {4, 6}\<rparr>" "\<lambda>_. Ret 4" 4 6]
  by auto

end
