(* ===== verification/Transactions.thy ===== *)
theory Transactions
  imports Serializer
begin

text \<open>
  \<^verbatim>\<open>pkg/stomp/transaction.go\<close>: the buffer that maps a transaction ID to the frames queued
  in it, its four operations, and the contract of such a store (locale \<open>tx_store\<close>): a
  queue holds what was added to it, in order, whatever happens to other transactions.
\<close>

section \<open>The buffer and its operations\<close>

type_synonym tx_buffer = "string \<rightharpoonup> Frame list"

definition startTx :: "string \<Rightarrow> tx_buffer \<Rightarrow> tx_buffer \<times> unit result" where
  "startTx txID txBuffer =
     (if txID = '''' then (txBuffer, Fail (errorMsg errTransaction ''Missing transaction ID''))
      else if txBuffer txID \<noteq> None then
        (txBuffer, Fail (errorMsg errTransaction
          (''Transaction already began/present (possible duplicate), TxID: '' @ txID)))
      else (txBuffer(txID \<mapsto> []), Ret ()))"

definition bufferTxMessage :: "string \<Rightarrow> Frame \<Rightarrow> tx_buffer \<Rightarrow> tx_buffer \<times> unit result" where
  "bufferTxMessage txID msgFrame txBuffer =
     (case txBuffer txID of
        None \<Rightarrow> (txBuffer, Fail (errorMsg errTransaction
          (''No such transaction present, TxID: '' @ txID)))
      | Some q \<Rightarrow> (txBuffer(txID \<mapsto> q @ [msgFrame]), Ret ()))"

text \<open>
  The loop of \<open>foreachTx\<close> over the queue: the closure \<open>fn\<close> works on the state \<open>s\<close> of its
  caller, and the first call that does not return normally ends the loop.
\<close>

fun foreach_frame :: "(Frame \<Rightarrow> 's \<Rightarrow> 's \<times> unit result) \<Rightarrow> Frame list \<Rightarrow> 's \<Rightarrow> 's \<times> unit result" where
  "foreach_frame fn [] s = (s, Ret ())"
| "foreach_frame fn (f # fs) s =
     (case fn f s of
        (s', Ret _) \<Rightarrow> foreach_frame fn fs s'
      | (s', r) \<Rightarrow> (s', r))"

definition foreachTx ::
  "string \<Rightarrow> tx_buffer \<Rightarrow> (Frame \<Rightarrow> 's \<Rightarrow> 's \<times> unit result) \<Rightarrow> 's \<Rightarrow> 's \<times> unit result" where
  "foreachTx txID txBuffer fn s =
     (if txID = '''' then
        (s, Fail (errorMsg errTransaction ''Missing transaction ID when committing''))
      else (case txBuffer txID of
              None \<Rightarrow> (s, Fail (errorMsg errTransaction
                (''Transaction ID '' @ sq txID @ '' not found in txBuffer'')))
            | Some q \<Rightarrow> foreach_frame fn q s))"

definition dropTx :: "string \<Rightarrow> tx_buffer \<Rightarrow> tx_buffer \<times> unit result" where
  "dropTx txID txBuffer =
     (if txID = '''' then
        (txBuffer, Fail (errorMsg errTransaction ''Missing transaction ID when cancelling''))
      else if txBuffer txID = None then
        (txBuffer, Fail (errorMsg errTransaction
          (''Transaction ID '' @ sq txID @ '' not found for deletion from txBuffer'')))
      else (txBuffer(txID := None), Ret ()))"

declare startTx_def [go_eval] bufferTxMessage_def [go_eval] foreachTx_def [go_eval]
  dropTx_def [go_eval]

section \<open>The contract\<close>

datatype ('id, 'm) tx_op = TxBegin 'id | TxAdd 'id 'm | TxDrop 'id

fun tx_op_id :: "('id, 'm) tx_op \<Rightarrow> 'id" where
  "tx_op_id (TxBegin i) = i"
| "tx_op_id (TxAdd i m) = i"
| "tx_op_id (TxDrop i) = i"

fun added :: "'id \<Rightarrow> ('id, 'm) tx_op list \<Rightarrow> 'm list" where
  "added i [] = []"
| "added i (TxAdd j m # ops) = (if j = i then m # added i ops else added i ops)"
| "added i (_ # ops) = added i ops"

locale tx_store =
  fixes step :: "('id, 'm) tx_op \<Rightarrow> 's \<Rightarrow> 's \<times> ('e, unit) outcome"
    and queue :: "'s \<Rightarrow> 'id \<Rightarrow> 'm list option"
    and good_id :: "'id \<Rightarrow> bool"
  assumes begin_ok: "good_id i \<Longrightarrow> queue s i = None \<Longrightarrow>
      queue (fst (step (TxBegin i) s)) = (queue s)(i \<mapsto> []) \<and> snd (step (TxBegin i) s) = Ret ()"
    and begin_bad: "\<not> good_id i \<or> queue s i \<noteq> None \<Longrightarrow>
      fst (step (TxBegin i) s) = s \<and> is_fail (snd (step (TxBegin i) s))"
    and add_ok: "queue s i = Some q \<Longrightarrow>
      queue (fst (step (TxAdd i m) s)) = (queue s)(i \<mapsto> q @ [m]) \<and> snd (step (TxAdd i m) s) = Ret ()"
    and add_bad: "queue s i = None \<Longrightarrow>
      fst (step (TxAdd i m) s) = s \<and> is_fail (snd (step (TxAdd i m) s))"
    and drop_ok: "good_id i \<Longrightarrow> queue s i \<noteq> None \<Longrightarrow>
      queue (fst (step (TxDrop i) s)) = (queue s)(i := None) \<and> snd (step (TxDrop i) s) = Ret ()"
    and drop_bad: "\<not> good_id i \<or> queue s i = None \<Longrightarrow>
      fst (step (TxDrop i) s) = s \<and> is_fail (snd (step (TxDrop i) s))"
begin

lemma step_no_panic: "\<not> is_panic (snd (step x s))"
proof (cases x)
  case (TxBegin i)
  then show ?thesis using begin_ok [of i s] begin_bad [of i s]
    by (cases "good_id i \<and> queue s i = None") (auto simp: is_fail_iff)
next
  case (TxAdd i m)
  then show ?thesis using add_ok [of s i _ m] add_bad [of s i m]
    by (cases "queue s i") (auto simp: is_fail_iff)
next
  case (TxDrop i)
  then show ?thesis using drop_ok [of i s] drop_bad [of i s]
    by (cases "good_id i \<and> queue s i \<noteq> None") (auto simp: is_fail_iff)
qed

text \<open>An operation on one transaction leaves the others alone.\<close>

lemma step_other: "tx_op_id x \<noteq> i \<Longrightarrow> queue (fst (step x s)) i = queue s i"
proof (cases x)
  case (TxBegin j)
  assume "tx_op_id x \<noteq> i"
  with TxBegin show ?thesis using begin_ok [of j s] begin_bad [of j s]
    by (cases "good_id j \<and> queue s j = None") auto
next
  case (TxAdd j m)
  assume "tx_op_id x \<noteq> i"
  with TxAdd show ?thesis using add_ok [of s j _ m] add_bad [of s j m]
    by (cases "queue s j") auto
next
  case (TxDrop j)
  assume "tx_op_id x \<noteq> i"
  with TxDrop show ?thesis using drop_ok [of j s] drop_bad [of j s]
    by (cases "good_id j \<and> queue s j \<noteq> None") auto
qed

lemma step_same:
  assumes "queue s i = Some q" and "x \<noteq> TxDrop i"
  shows "queue (fst (step x s)) i = Some (q @ added i [x])"
proof (cases "tx_op_id x = i")
  case True
  with assms begin_bad [of i s] add_ok [OF assms(1)] show ?thesis by (cases x) auto
next
  case False
  with assms(1) step_other [OF False] show ?thesis by (cases x) auto
qed

lemma added_Cons: "added i (x # xs) = added i [x] @ added i xs"
  by (cases x) auto

text \<open>The queue of a transaction is what was added to it, in order.\<close>

lemma run_queue:
  "queue s i = Some q \<Longrightarrow> TxDrop i \<notin> set xs \<Longrightarrow> queue (run_ops step xs s) i = Some (q @ added i xs)"
proof (induction xs arbitrary: s q)
  case (Cons x xs)
  obtain s' r where x: "step x s = (s', r)" by (cases "step x s")
  then have "\<not> is_panic r" using step_no_panic [of x s] by simp
  moreover have "queue s' i = Some (q @ added i [x])"
    using step_same [OF Cons.prems(1), of x] Cons.prems(2) x by auto
  ultimately show ?case
    using Cons.IH [of s' "q @ added i [x]"] Cons.prems(2) x added_Cons [of i x xs] by simp
qed simp

end

section \<open>The buffer meets the contract\<close>

fun tx_step :: "(string, Frame) tx_op \<Rightarrow> tx_buffer \<Rightarrow> tx_buffer \<times> unit result" where
  "tx_step (TxBegin i) s = startTx i s"
| "tx_step (TxAdd i m) s = bufferTxMessage i m s"
| "tx_step (TxDrop i) s = dropTx i s"

interpretation tx: tx_store tx_step "\<lambda>s. s" "\<lambda>i. i \<noteq> ''''"
  by unfold_locales (auto simp: startTx_def bufferTxMessage_def dropTx_def)

text \<open>No transaction ever has the empty ID.\<close>

definition tx_inv :: "tx_buffer \<Rightarrow> bool" where
  "tx_inv s \<longleftrightarrow> s '''' = None"

interpretation tx_machine: machine tx_step tx_inv "\<lambda>_. True"
proof
  fix s x
  assume "tx_inv s"
  then show "tx_inv (fst (tx_step x s))"
    by (cases x) (auto simp: tx_inv_def startTx_def bufferTxMessage_def dropTx_def split: option.splits)
qed

section \<open>The loop over a queue\<close>

lemma foreach_frame_all:
  "(\<And>f s. f \<in> set fs \<Longrightarrow> snd (fn f s) = Ret ()) \<Longrightarrow>
     foreach_frame fn fs s = (fold (\<lambda>f s. fst (fn f s)) fs s, Ret ())"
proof (induction fs arbitrary: s)
  case (Cons f fs)
  then have "snd (fn f s) = Ret ()" by simp
  with Cons show ?case by (cases "fn f s") simp
qed simp

lemma foreach_frame_append:
  "foreach_frame fn (fs @ gs) s =
     (case foreach_frame fn fs s of
        (s', Ret _) \<Rightarrow> foreach_frame fn gs s'
      | (s', r) \<Rightarrow> (s', r))"
  by (induction fs arbitrary: s) (auto split: prod.splits outcome.splits)

lemma foreach_frame_inv:
  "(\<And>f s. f \<in> set fs \<Longrightarrow> P s \<Longrightarrow> P (fst (fn f s))) \<Longrightarrow> P s \<Longrightarrow> P (fst (foreach_frame fn fs s))"
proof (induction fs arbitrary: s)
  case (Cons f fs)
  obtain s' r where r: "fn f s = (s', r)" by (cases "fn f s")
  with Cons.prems have "P s'" by (metis fst_conv list.set_intros(1))
  with Cons r show ?case by (cases r) simp_all
qed simp

lemma foreachTx_inv:
  "(\<And>f s. P s \<Longrightarrow> P (fst (fn f s))) \<Longrightarrow> P s \<Longrightarrow> P (fst (foreachTx txID b fn s))"
  by (auto simp: foreachTx_def intro: foreach_frame_inv split: option.splits)

text \<open>What the buffer holds satisfies a property of frames that everything added to it does.\<close>

definition tx_frames :: "(Frame \<Rightarrow> bool) \<Rightarrow> tx_buffer \<Rightarrow> bool" where
  "tx_frames Q b \<longleftrightarrow> (\<forall>i q. b i = Some q \<longrightarrow> list_all Q q)"

lemma tx_frames_step:
  "tx_frames Q b \<Longrightarrow> (\<And>i m. x = TxAdd i m \<Longrightarrow> Q m) \<Longrightarrow> tx_frames Q (fst (tx_step x b))"
  by (cases x)
    (auto simp: tx_frames_def startTx_def bufferTxMessage_def dropTx_def split: option.splits if_splits)

section \<open>Properties\<close>

text \<open>
  C28. A transaction is a first-in first-out queue of its own: through any sequence of BEGIN,
  SEND and ABORT operations that does not abort it, on this and on other transactions and with
  operations that fail among them, the buffer holds for it exactly what was added to it,
  in order.
\<close>

theorem tx_queue_fifo:
  assumes "s i = Some q" and "TxDrop i \<notin> set ops"
  shows "run_ops tx_step ops s i = Some (q @ added i ops)"
  using assms by (rule tx.run_queue [of s i q ops])

theorem tx_queue_fifo_witness:
  "run_ops tx_step [TxAdd ''t'' demo_frame, TxBegin ''t'', TxDrop ''u'', TxAdd ''t'' (demo_frame\<lparr>body := None\<rparr>)]
     [''t'' \<mapsto> []] ''t'' = Some [demo_frame, demo_frame\<lparr>body := None\<rparr>]"
  using tx_queue_fifo [of "[''t'' \<mapsto> []]" "''t''" "[]"
    "[TxAdd ''t'' demo_frame, TxBegin ''t'', TxDrop ''u'', TxAdd ''t'' (demo_frame\<lparr>body := None\<rparr>)]"]
  by simp

end
