(* ===== verification/Heartbeats.thy ===== *)
theory Heartbeats
  imports Frames
begin

text \<open>
  \<^verbatim>\<open>pkg/stomp/common.go\<close>: its constants, and heart-beat negotiation: \<open>parseHbVal\<close>, the header
  value that both sides print, and the contract of a side that negotiates (locale \<open>hb_peer\<close>), which
  the broker's session and the client are shown to meet in their theories. Two such sides
  agree on the intervals after the CONNECT/CONNECTED exchange (locale \<open>hb_handshake\<close>).
\<close>

section \<open>Constants\<close>

abbreviation DefaultPort :: string where "DefaultPort \<equiv> ''61613''"
abbreviation TransportTCP :: string where "TransportTCP \<equiv> ''TCP''"
abbreviation TransportWebsocket :: string where "TransportWebsocket \<equiv> ''Websocket''"

section \<open>The header value\<close>

definition parseHbVal :: "string \<Rightarrow> (int \<times> int) result" where
  "parseHbVal hbVal =
     (let intervals = split_on (CHR '','') hbVal
      in if length intervals \<noteq> 2 then
           Fail (errorMsg errProtocolFrame (''Invalid heartbeat header: '' @ hbVal))
         else
           (case atoi (intervals ! 0) of
              Inl _ \<Rightarrow> Fail (errorMsg errProtocolFrame
                (''Invalid heartbeat header send interval from client: '' @ hbVal))
            | Inr sendInterval \<Rightarrow>
                if sendInterval < 0 then
                  Fail (errorMsg errProtocolFrame
                    (''Invalid heartbeat header send interval from client: '' @ hbVal))
                else
                  (case atoi (intervals ! 1) of
                     Inl _ \<Rightarrow> Fail (errorMsg errProtocolFrame
                       (''Invalid heartbeat header receive interval from client: '' @ hbVal))
                   | Inr recvInterval \<Rightarrow>
                       if recvInterval < 0 then
                         Fail (errorMsg errProtocolFrame
                           (''Invalid heartbeat header receive interval from client: '' @ hbVal))
                       else Ret (sendInterval, recvInterval))))"

text \<open>\<open>fmt.Sprintf("%d,%d", send, recv)\<close>, as broker and client print it.\<close>

definition fmt_hb :: "int \<Rightarrow> int \<Rightarrow> string" where
  "fmt_hb send recv = itoa send @ '','' @ itoa recv"

declare parseHbVal_def [go_eval] fmt_hb_def [go_eval]

lemma no_comma_itoa: "CHR '','' \<notin> set (itoa n)"
  by (rule not_in_itoa) simp_all

lemma split_fmt_hb: "split_on (CHR '','') (fmt_hb a b) = [itoa a, itoa b]"
  by (simp add: fmt_hb_def split_on_nosep no_comma_itoa)

lemma parseHbVal_fmt_hb:
  "int64 a \<Longrightarrow> int64 b \<Longrightarrow> 0 \<le> a \<Longrightarrow> 0 \<le> b \<Longrightarrow> parseHbVal (fmt_hb a b) = Ret (a, b)"
  by (simp add: parseHbVal_def split_fmt_hb atoi_itoa)

lemma parseHbVal_negative:
  "int64 a \<Longrightarrow> int64 b \<Longrightarrow> a < 0 \<or> b < 0 \<Longrightarrow> is_fail (parseHbVal (fmt_hb a b))"
  by (auto simp: parseHbVal_def split_fmt_hb atoi_itoa)

lemma parseHbVal_result: "ret_or errProtocolFrame (parseHbVal v)"
  by (auto simp: parseHbVal_def Let_def errorMsg_def split: sum.splits)

text \<open>What \<open>parseHbVal\<close> returns is never negative, whatever the peer sent.\<close>

lemma parseHbVal_nonneg: "parseHbVal v = Ret (a, b) \<Longrightarrow> 0 \<le> a \<and> 0 \<le> b"
  by (auto simp: parseHbVal_def Let_def split: sum.splits if_splits)

text \<open>Intervals that a side can offer: two Go integers that are not negative.\<close>

definition hb_offer :: "int \<Rightarrow> int \<Rightarrow> bool" where
  "hb_offer a b \<longleftrightarrow> int64 a \<and> int64 b \<and> 0 \<le> a \<and> 0 \<le> b"

interpretation heartbeat: codec "\<lambda>(a, b). fmt_hb a b"
  "\<lambda>v. case parseHbVal v of Ret x \<Rightarrow> Some x | _ \<Rightarrow> None" "\<lambda>(a, b). hb_offer a b"
  by unfold_locales (auto simp: hb_offer_def parseHbVal_fmt_hb)

section \<open>Negotiation\<close>

text \<open>The interval of one direction: what the protocol asks of the two offers.\<close>

definition negotiated :: "int \<Rightarrow> int \<Rightarrow> int" where
  "negotiated mine theirs = (if mine = 0 \<or> theirs = 0 then 0 else max mine theirs)"

lemma negotiated_commute: "negotiated a b = negotiated b a"
  by (simp add: negotiated_def max.commute)

lemma negotiated_absorb: "0 \<le> a \<Longrightarrow> 0 \<le> b \<Longrightarrow> negotiated a (negotiated a b) = negotiated a b"
  by (auto simp: negotiated_def)

lemma negotiated_nonneg: "0 \<le> a \<Longrightarrow> 0 \<le> b \<Longrightarrow> 0 \<le> negotiated a b"
  by (simp add: negotiated_def max_def)

lemma negotiated_int64: "int64 a \<Longrightarrow> int64 b \<Longrightarrow> int64 (negotiated a b)"
  by (auto simp: negotiated_def int64_def)

text \<open>
  A side of the connection: its send and receive intervals, and the step that works the
  other side's header value into them. The step may still fail when it sets up the
  heart-beat job; the intervals are negotiated by then.
\<close>

locale hb_peer =
  fixes negotiate :: "string \<Rightarrow> 's \<Rightarrow> 's \<times> unit result"
    and send recv :: "'s \<Rightarrow> int"
  assumes negotiate_ret: "parseHbVal v = Ret (a, b) \<Longrightarrow>
      send (fst (negotiate v s)) = negotiated (send s) b \<and>
      recv (fst (negotiate v s)) = negotiated (recv s) a"
    and negotiate_bad: "\<not> is_ret (parseHbVal v) \<Longrightarrow>
      fst (negotiate v s) = s \<and> is_fail (snd (negotiate v s))"
begin

lemma stays_nonneg:
  assumes "0 \<le> send s" and "0 \<le> recv s"
  shows "0 \<le> send (fst (negotiate v s)) \<and> 0 \<le> recv (fst (negotiate v s))"
proof (cases "parseHbVal v")
  case (Ret x)
  obtain a b where x: "x = (a, b)" by (cases x)
  with Ret have v: "parseHbVal v = Ret (a, b)" by simp
  from negotiate_ret [OF v, of s] parseHbVal_nonneg [OF v] assms show ?thesis
    by (simp add: negotiated_nonneg)
qed (use negotiate_bad [of v s] assms in simp_all)

text \<open>Heart-beats only slow down: a direction is switched off or its interval grows.\<close>

lemma never_faster:
  assumes "0 \<le> send s"
  shows "send (fst (negotiate v s)) = 0 \<or> send s \<le> send (fst (negotiate v s))"
proof (cases "parseHbVal v")
  case (Ret x)
  obtain a b where "x = (a, b)" by (cases x)
  with Ret negotiate_ret [of v a b s] show ?thesis by (auto simp: negotiated_def)
qed (use negotiate_bad [of v s] in simp_all)

end

locale hb_handshake =
  server: hb_peer b_negotiate b_send b_recv + client: hb_peer c_negotiate c_send c_recv
  for b_negotiate :: "string \<Rightarrow> 'b \<Rightarrow> 'b \<times> unit result" and b_send b_recv
    and c_negotiate :: "string \<Rightarrow> 'c \<Rightarrow> 'c \<times> unit result" and c_send c_recv
begin

text \<open>
  The client offers its intervals, the broker negotiates and answers with the result, and
  the client negotiates with the answer: then each sends as often as the other expects.
\<close>

lemma agreement:
  assumes "hb_offer (b_send b) (b_recv b)" and "hb_offer (c_send c) (c_recv c)"
    and "b' = fst (b_negotiate (fmt_hb (c_send c) (c_recv c)) b)"
    and "c' = fst (c_negotiate (fmt_hb (b_send b') (b_recv b')) c)"
  shows "b_send b' = c_recv c' \<and> b_recv b' = c_send c' \<and>
    b_send b' = negotiated (b_send b) (c_recv c) \<and> b_recv b' = negotiated (b_recv b) (c_send c)"
proof -
  note ok = assms(1,2) [unfolded hb_offer_def]
  have b': "b_send b' = negotiated (b_send b) (c_recv c)" "b_recv b' = negotiated (b_recv b) (c_send c)"
    using server.negotiate_ret [OF parseHbVal_fmt_hb, of "c_send c" "c_recv c" b] ok
    by (simp_all add: assms(3))
  then have "c_send c' = negotiated (c_send c) (b_recv b')" "c_recv c' = negotiated (c_recv c) (b_send b')"
    using client.negotiate_ret [OF parseHbVal_fmt_hb, of "b_send b'" "b_recv b'" c] ok
    by (simp_all add: assms(4) negotiated_nonneg negotiated_int64)
  with b' ok show ?thesis
    by (simp add: negotiated_commute [of "b_send b"] negotiated_commute [of "b_recv b"] negotiated_absorb)
qed

end

section \<open>Properties\<close>

text \<open>
  Whatever the peer sends, \<open>parseHbVal\<close> returns two non-negative 64-bit intervals or an
  error of the type \<open>errProtocolFrame\<close>.
\<close>

theorem parseHbVal_range:
  "(\<exists>a b. parseHbVal v = Ret (a, b) \<and> hb_offer a b) \<or> (\<exists>msg. parseHbVal v = Fail (errorMsg errProtocolFrame msg))"
proof (cases "parseHbVal v")
  case (Ret x)
  obtain a b where x: "x = (a, b)" by (cases x)
  with Ret have "int64 a" "int64 b"
    by (auto simp: parseHbVal_def Let_def split: sum.splits if_splits dest: atoi_range)
  with Ret x parseHbVal_nonneg [of v a b] show ?thesis by (simp add: hb_offer_def)
qed (use parseHbVal_result [of v] in \<open>auto simp: errorMsg_def\<close>)

end
