(* ===== verification/Sessions.thy ===== *)
theory Sessions
  imports Subscriptions Transactions Heartbeats
begin

text \<open>
  The state of the broker process and what its sessions send (\<^verbatim>\<open>pkg/stomp/broker.go\<close>,
  \<open>Session\<close> to \<open>send\<close>, and \<open>publish\<close> of \<^verbatim>\<open>subscribe.go\<close>). A session pointer is the ID of
  the session, the store \<open>session_at\<close> holds what it points to.

  What the code takes from other packages is in the record \<open>env\<close>: the UUIDs, the outcome of
  \<open>backoff.Retry\<close> on a connection (\<open>deliver\<close>: the error left after the last attempt, or
  \<open>None\<close> when an attempt wrote everything; it may depend on all that happened to the
  connection before) and the bytes that its failed attempts left on the wire (\<open>torn\<close>), the
  heart-beat scheduler, the bitmap's \<open>Minimum\<close>, lower case beyond ASCII, the release version
  that the build embeds, and the order in which an iteration over a map or set visits its
  keys, for each value of the counter of UUIDs (\<open>range_order\<close>).
\<close>

section \<open>State\<close>

text \<open>
  \<open>conn_attempts\<close> and \<open>conn_sent\<close>: what was to be written, and what of it was written in full;
  \<open>conn_wire\<close>: all bytes that went out, those of failed attempts included.
\<close>

record conn =
  conn_closed :: bool
  conn_attempts :: "string list"
  conn_sent :: "string list"
  conn_wire :: string

definition new_conn :: conn where
  "new_conn = \<lparr>conn_closed = False, conn_attempts = [], conn_sent = [], conn_wire = ''''\<rparr>"

type_synonym LoginFunc = "string \<Rightarrow> string \<Rightarrow> go_error option"

record Session =
  sess_conn :: conn
  sessionID :: string
  loginFunc :: "LoginFunc option"
  hbSendIntervalMsec :: int
  hbRecvIntervalMsec :: int
  hbJob :: "nat option"

definition NewSession :: "string \<Rightarrow> conn \<Rightarrow> LoginFunc option \<Rightarrow> int \<Rightarrow> int \<Rightarrow> Session" where
  "NewSession uuid c login heartbeatSendIntervalMsec heartbeatReceiveIntervalMsec =
     \<lparr>sess_conn = c, sessionID = uuid, loginFunc = login,
      hbSendIntervalMsec = heartbeatSendIntervalMsec,
      hbRecvIntervalMsec = heartbeatReceiveIntervalMsec, hbJob = None\<rparr>"

text \<open>
  The goroutine of a session: not started, in the loop of \<open>Start\<close>, blocked forever inside
  it, or returned from it.
\<close>

datatype goroutine = NotStarted | Running | Stuck | Ended

record broker =
  session_at :: "string \<Rightarrow> Session"
  routine :: "string \<Rightarrow> goroutine"
  wgSessions :: nat
  reg :: registry
  txBuffer :: tx_buffer
  uuids :: nat
  jobs :: "(nat \<times> string) list"
  njobs :: nat

record env =
  newUUID :: "nat \<Rightarrow> string"
  releaseVersion :: string
  deliver :: "conn \<Rightarrow> string \<Rightarrow> go_error option"
  sched_do :: "nat \<Rightarrow> int \<Rightarrow> string \<Rightarrow> nat option \<times> go_error option"
  bitmap_minimum :: "32 word set \<Rightarrow> 32 word result"
  unicode_lower :: "string \<Rightarrow> string"
  range_order :: "nat \<Rightarrow> iteration"
  torn :: "conn \<Rightarrow> string \<Rightarrow> string"

definition update_session :: "string \<Rightarrow> (Session \<Rightarrow> Session) \<Rightarrow> broker \<Rightarrow> broker" where
  "update_session sid g st = st\<lparr>session_at := (session_at st)(sid := g (session_at st sid))\<rparr>"

text \<open>A registry operation, and a transaction operation, of the process.\<close>

definition on_reg :: "(registry \<Rightarrow> registry \<times> 'a result) \<Rightarrow> broker \<Rightarrow> broker \<times> 'a result" where
  "on_reg g st = (case g (reg st) of (r, x) \<Rightarrow> (st\<lparr>reg := r\<rparr>, x))"

definition on_tx :: "(tx_buffer \<Rightarrow> tx_buffer \<times> 'a result) \<Rightarrow> broker \<Rightarrow> broker \<times> 'a result" where
  "on_tx g st = (case g (txBuffer st) of (t, x) \<Rightarrow> (st\<lparr>txBuffer := t\<rparr>, x))"

section \<open>Sending\<close>

text \<open>
  \<open>backoff.Retry(sendIt, b)\<close>, where \<open>sendIt\<close> writes the bytes to the connection, from the
  first byte in every attempt.
\<close>

definition retry_write :: "env \<Rightarrow> conn \<Rightarrow> string \<Rightarrow> conn \<times> unit result" where
  "retry_write env c bytes =
     (case deliver env c bytes of
        None \<Rightarrow> (c\<lparr>conn_attempts := conn_attempts c @ [bytes], conn_sent := conn_sent c @ [bytes],
                   conn_wire := conn_wire c @ torn env c bytes @ bytes\<rparr>, Ret ())
      | Some err \<Rightarrow> (c\<lparr>conn_attempts := conn_attempts c @ [bytes],
                       conn_wire := conn_wire c @ torn env c bytes\<rparr>, Fail err))"

text \<open>
  When no attempt fails half-way, the wire carries the successful writes, one after the
  other; after a torn attempt that a retry repeats, it carries the beginning of a frame
  before the frame.
\<close>

lemma retry_write_wire:
  "(\<And>c b. torn env c b = '''') \<Longrightarrow> conn_wire c = concat (conn_sent c) \<Longrightarrow>
     conn_wire (fst (retry_write env c b)) = concat (conn_sent (fst (retry_write env c b)))"
  by (simp add: retry_write_def split: option.splits)

lemma retry_repeats_torn_frame:
  "conn_wire c = concat (conn_sent c) \<Longrightarrow> deliver env c b = None \<Longrightarrow>
     conn_wire (fst (retry_write env c b)) = concat (conn_sent c) @ torn env c b @ b"
  by (simp add: retry_write_def)

definition write_session :: "env \<Rightarrow> string \<Rightarrow> string \<Rightarrow> broker \<Rightarrow> broker \<times> unit result" where
  "write_session env sid bytes st =
     (case retry_write env (sess_conn (session_at st sid)) bytes of
        (c, r) \<Rightarrow> (update_session sid (\<lambda>s. s\<lparr>sess_conn := c\<rparr>) st, r))"

definition sendRaw :: "env \<Rightarrow> string \<Rightarrow> string \<Rightarrow> broker \<Rightarrow> broker \<times> unit result" where
  "sendRaw env sid bdy st = write_session env sid bdy st"

definition send ::
  "env \<Rightarrow> string \<Rightarrow> Command \<Rightarrow> (Header, string) gomap \<Rightarrow> string option \<Rightarrow> broker \<Rightarrow> broker \<times> unit result" where
  "send env sid cmd hdrs bdy st =
     (let f = NewFrame cmd hdrs bdy
      in case Validate ServerFrame f of
           Ret _ \<Rightarrow> write_session env sid (serialize f) st
         | Fail err \<Rightarrow> (st, Fail err)
         | Panic p \<Rightarrow> (st, Panic p)
         | Block \<Rightarrow> (st, Block))"

definition sendError :: "env \<Rightarrow> string \<Rightarrow> go_error \<Rightarrow> string \<Rightarrow> broker \<Rightarrow> broker \<times> unit result" where
  "sendError env sid err payload st =
     send env sid CmdError
       [(HdrKeyContentType, ''text/plain''),
        (HdrKeyContentLength, itoa (int (length payload))),
        (HdrKeyMessage, error_text err)]
       (Some payload) st"

text \<open>
  The headers of a MESSAGE: those of the broker, then those of the SEND frame over them, with
  their keys in lower case, in the order in which the loop visits them (of two that agree in
  lower case, the later one wins).
\<close>

definition message_headers ::
  "(string \<Rightarrow> string) \<Rightarrow> string \<Rightarrow> string \<Rightarrow> string \<Rightarrow> 32 word \<Rightarrow> string \<Rightarrow> (Header, string) gomap \<Rightarrow>
     (Header, string) gomap" where
  "message_headers U uuid dest subsID ackNum txID hdrs =
     (let h = [(HdrKeyDestination, dest), (HdrKeyMessageID, uuid), (HdrKeySubscription, subsID)];
          h = gm_set HdrKeyAck (fmtAckNum dest subsID ackNum) h;
          h = (if txID \<noteq> '''' then gm_set HdrKeyTransaction txID h else h)
      in fold (\<lambda>(k, v). gm_set (to_lower U k) v) hdrs h)"

definition sendMessage ::
  "env \<Rightarrow> string \<Rightarrow> string \<Rightarrow> string \<Rightarrow> 32 word \<Rightarrow> string \<Rightarrow> (Header, string) gomap \<Rightarrow> string option \<Rightarrow>
     broker \<Rightarrow> broker \<times> unit result" where
  "sendMessage env sid dest subsID ackNum txID hdrs bdy st =
     send env sid CmdMessage
       (message_headers (unicode_lower env) (newUUID env (uuids st)) dest subsID ackNum txID
         (range_over (range_order env (uuids st)) hdrs))
       bdy (st\<lparr>uuids := Suc (uuids st)\<rparr>)"

section \<open>Publishing\<close>

text \<open>
  \<open>publish_each\<close>: the goroutine \<open>sendIt\<close> of every subscription of the destination. The one
  whose send fails returns without \<open>wg.Done()\<close>, so \<open>wg.Wait()\<close> never returns; the others
  still run.
\<close>

definition mark_sent :: "string \<Rightarrow> string \<Rightarrow> registry \<Rightarrow> registry" where
  "mark_sent dest subsID r =
     r\<lparr>destToSubsMap := (destToSubsMap r)(dest := map_option
        (map (\<lambda>(i, info). (i, if i = subsID then
           info\<lparr>pendingAckBitmap := insert (nextAckNum info) (pendingAckBitmap info),
                nextAckNum := nextAckNum info + 1\<rparr> else info)))
        (destToSubsMap r dest))\<rparr>"

fun publish_each ::
  "env \<Rightarrow> string \<Rightarrow> string \<Rightarrow> Frame \<Rightarrow> subsToInfo \<Rightarrow> broker \<Rightarrow> broker \<times> unit result" where
  "publish_each env dest txID f [] st = (st, Ret ())"
| "publish_each env dest txID f ((subsID, info) # subs) st =
     (case sendMessage env (sessionHandler info) dest subsID (nextAckNum info) txID
             (headers f) (body f) st of
        (st', Ret _) \<Rightarrow> publish_each env dest txID f subs (st'\<lparr>reg := mark_sent dest subsID (reg st')\<rparr>)
      | (st', Fail err) \<Rightarrow>
          (case publish_each env dest txID f subs st' of
             (st'', Panic p) \<Rightarrow> (st'', Panic p)
           | (st'', _) \<Rightarrow> (st'', Block))
      | (st', Panic p) \<Rightarrow> (st', Panic p)
      | (st', Block) \<Rightarrow> (st', Block))"

definition publish :: "env \<Rightarrow> Frame \<Rightarrow> string \<Rightarrow> broker \<Rightarrow> broker \<times> unit result" where
  "publish env f txID st =
     (let dest = getHeader f HdrKeyDestination
      in if dest = '''' then
           (st, Fail (errorMsg errBrokerStateMachine
             (''Missing entry in destToSubsMap, for key: '' @ dest)))
         else publish_each env dest txID f (subs_at (reg st) dest) st)"

declare update_session_def [go_eval] on_reg_def [go_eval] on_tx_def [go_eval]
  retry_write_def [go_eval] write_session_def [go_eval] sendRaw_def [go_eval] send_def [go_eval] sendError_def [go_eval]
  message_headers_def [go_eval] sendMessage_def [go_eval] mark_sent_def [go_eval]
  publish_def [go_eval] new_conn_def [go_eval] NewSession_def [go_eval]

section \<open>What sending changes\<close>

text \<open>What has been delivered to a session.\<close>

definition sent_to :: "broker \<Rightarrow> string \<Rightarrow> string list" where
  "sent_to st sid = conn_sent (sess_conn (session_at st sid))"

text \<open>
  \<open>only_writes sid st st'\<close>: from \<open>st\<close> to \<open>st'\<close> at most the connection of the session \<open>sid\<close> and the
  UUID counter have changed.
\<close>

definition only_writes :: "string \<Rightarrow> broker \<Rightarrow> broker \<Rightarrow> bool" where
  "only_writes sid st st' \<longleftrightarrow>
     reg st' = reg st \<and> txBuffer st' = txBuffer st \<and> routine st' = routine st \<and>
     wgSessions st' = wgSessions st \<and> jobs st' = jobs st \<and> njobs st' = njobs st \<and>
     uuids st \<le> uuids st' \<and>
     (\<exists>c. session_at st' = (session_at st)(sid := (session_at st sid)\<lparr>sess_conn := c\<rparr>))"

lemma only_writes_refl [simp]: "only_writes sid st st"
  unfolding only_writes_def by (auto intro!: exI [of _ "sess_conn (session_at st sid)"])

lemma only_writes_trans:
  "only_writes sid st st' \<Longrightarrow> only_writes sid st' st'' \<Longrightarrow> only_writes sid st st''"
  by (auto simp: only_writes_def)

lemma only_writes_uuids: "only_writes sid (st\<lparr>uuids := Suc n\<rparr>) st' \<Longrightarrow> n = uuids st \<Longrightarrow> only_writes sid st st'"
  by (auto simp: only_writes_def)

lemma only_writes_same:
  assumes "only_writes sid st st'"
  shows "reg st' = reg st" and "txBuffer st' = txBuffer st" and "routine st' = routine st"
    and "wgSessions st' = wgSessions st" and "jobs st' = jobs st" and "njobs st' = njobs st"
    and "uuids st \<le> uuids st'"
    and "sid' \<noteq> sid \<Longrightarrow> session_at st' sid' = session_at st sid'"
    and "sessionID (session_at st' s) = sessionID (session_at st s)"
    and "loginFunc (session_at st' s) = loginFunc (session_at st s)"
    and "hbSendIntervalMsec (session_at st' s) = hbSendIntervalMsec (session_at st s)"
    and "hbRecvIntervalMsec (session_at st' s) = hbRecvIntervalMsec (session_at st s)"
    and "hbJob (session_at st' s) = hbJob (session_at st s)"
  using assms by (auto simp: only_writes_def)

lemma write_session_only: "only_writes sid st (fst (write_session env sid b st))"
  by (auto simp: only_writes_def write_session_def update_session_def split: prod.splits)

lemma write_session_result:
  "snd (write_session env sid b st) =
     (case deliver env (sess_conn (session_at st sid)) b of None \<Rightarrow> Ret () | Some e \<Rightarrow> Fail e)"
  by (simp add: write_session_def retry_write_def split: option.splits)

lemma write_session_sent:
  "sent_to (fst (write_session env sid b st)) s =
     sent_to st s @ (if s = sid \<and> deliver env (sess_conn (session_at st sid)) b = None then [b] else [])"
  by (simp add: write_session_def retry_write_def sent_to_def update_session_def split: option.splits)

lemma send_only: "only_writes sid st (fst (send env sid cmd h b st))"
  by (auto simp: send_def Let_def write_session_only split: outcome.splits)

text \<open>A frame that the broker sends is valid, or it is not sent.\<close>

lemma send_cases:
  obtains (sent) "Validate ServerFrame (NewFrame cmd h b) = Ret ()"
      "send env sid cmd h b st = write_session env sid (serialize (NewFrame cmd h b)) st"
  | (invalid) e where "Validate ServerFrame (NewFrame cmd h b) = Fail e"
      "send env sid cmd h b st = (st, Fail e)"
  using Validate_not_panic [of ServerFrame "NewFrame cmd h b"] Validate_result [of ServerFrame "NewFrame cmd h b"]
  by (cases "Validate ServerFrame (NewFrame cmd h b)") (auto simp: send_def Let_def)

section \<open>The MESSAGE frame\<close>

definition message_frame :: "env \<Rightarrow> nat \<Rightarrow> string \<Rightarrow> string \<Rightarrow> 32 word \<Rightarrow> string \<Rightarrow> Frame \<Rightarrow> Frame" where
  "message_frame env n dest subsID ackNum txID f =
     NewFrame CmdMessage
       (message_headers (unicode_lower env) (newUUID env n) dest subsID ackNum txID
         (range_over (range_order env n) (headers f))) (body f)"

lemma fold_gm_set_keys:
  "gm_get h k \<noteq> None \<Longrightarrow> gm_get (fold (\<lambda>(k, v). gm_set (g k) v) hs h) k \<noteq> None"
  by (induction hs arbitrary: h) (auto split: prod.splits)

lemma fold_gm_set_other:
  "(\<And>k' v. (k', v) \<in> set hs \<Longrightarrow> g k' \<noteq> k) \<Longrightarrow>
     gm_get (fold (\<lambda>(k, v). gm_set (g k) v) hs h) k = gm_get h k"
proof (induction hs arbitrary: h)
  case (Cons x hs)
  obtain k' v where x: "x = (k', v)" by (cases x)
  with Cons.prems [of k' v] have k': "g k' \<noteq> k" by simp
  have "gm_get (fold (\<lambda>(k, v). gm_set (g k) v) hs (gm_set (g k') v h)) k = gm_get (gm_set (g k') v h) k"
    by (rule Cons.IH) (use Cons.prems in auto)
  with x k' show ?case by simp
qed simp

lemma fold_gm_set_entries:
  "(k, v) \<in> set (fold (\<lambda>(k, v). gm_set (g k) v) hs h) \<Longrightarrow>
     (k, v) \<in> set h \<or> (\<exists>k'. (k', v) \<in> set hs \<and> k = g k')"
proof (induction hs arbitrary: h)
  case (Cons x hs)
  obtain k' v' where x: "x = (k', v')" by (cases x)
  from Cons.IH [of "gm_set (g k') v' h"] Cons.prems x
  show ?case using gm_set_entries [of "(k, v)" "g k'" v' h] by auto
qed simp

lemma message_headers_required:
  "gm_get (message_headers U u dest i n tx hs) HdrKeyDestination \<noteq> None"
  "gm_get (message_headers U u dest i n tx hs) HdrKeyMessageID \<noteq> None"
  "gm_get (message_headers U u dest i n tx hs) HdrKeySubscription \<noteq> None"
  unfolding message_headers_def Let_def by (rule fold_gm_set_keys, simp)+

text \<open>
  The headers of the broker: each is in the MESSAGE unless the sender of the message gave a
  header of that name, in any case.
\<close>

lemma message_headers_broker:
  assumes "\<And>k v. (k, v) \<in> set hs \<Longrightarrow> to_lower U k \<noteq> h"
  shows "gm_get (message_headers U u dest i n tx hs) h =
    gm_get ((if tx \<noteq> '''' then [(HdrKeyTransaction, tx)] else []) @
      [(HdrKeyAck, fmtAckNum dest i n), (HdrKeyDestination, dest), (HdrKeyMessageID, u),
       (HdrKeySubscription, i)]) h"
  unfolding message_headers_def Let_def
  by (subst fold_gm_set_other) (use assms in \<open>auto simp: if_distrib [of set]\<close>)

lemma message_headers_entries:
  assumes "(k, v) \<in> set (message_headers U u dest i n tx hs)"
  shows "(k, v) \<in> {(HdrKeyDestination, dest), (HdrKeyMessageID, u), (HdrKeySubscription, i),
      (HdrKeyAck, fmtAckNum dest i n), (HdrKeyTransaction, tx)} \<or>
    (\<exists>k'. (k', v) \<in> set hs \<and> k = to_lower U k')"
  using fold_gm_set_entries [OF assms [unfolded message_headers_def Let_def]]
  by (auto dest!: gm_set_entries split: if_splits)

lemma message_headers_sender:
  assumes "gm_ok (map (\<lambda>(k, v). (to_lower U k, v)) hs)" and "(k, v) \<in> set hs"
  shows "gm_get (message_headers U u dest i n tx hs) (to_lower U k) = Some v"
proof -
  have "gm_ok (map (\<lambda>(k, v). (to_lower U k, v)) hs) \<Longrightarrow> (k, v) \<in> set hs \<Longrightarrow>
      gm_get (fold (\<lambda>(k, v). gm_set (to_lower U k) v) hs h) (to_lower U k) = Some v" for h
  proof (induction hs arbitrary: h)
    case (Cons x hs)
    obtain k' v' where x: "x = (k', v')" by (cases x)
    show ?case
    proof (cases "(k, v) \<in> set hs")
      case True
      with Cons x show ?thesis by simp
    next
      case False
      with Cons.prems x have "k = k'" "v = v'" "\<And>j w. (j, w) \<in> set hs \<Longrightarrow> to_lower U j \<noteq> to_lower U k"
        by (auto simp: image_iff)
      with x show ?thesis by (simp add: fold_gm_set_other)
    qed
  qed simp
  from this [OF assms] show ?thesis by (simp add: message_headers_def Let_def)
qed

text \<open>Lower case keeps the escape sequences of a header name.\<close>

lemma ascii_lower_BSL: "ascii_lower c = BSL \<longleftrightarrow> c = BSL"
  by (cases c) (auto simp: ascii_lower_def Let_def of_char_def char_of_def)

lemma ascii_lower_escape_chars:
  "ascii_lower BSL = BSL" "ascii_lower CHR ''n'' = CHR ''n''" "ascii_lower CHR ''r'' = CHR ''r''"
  "ascii_lower CHR ''c'' = CHR ''c''"
  by code_simp+

lemma checkValidEscapes_lower: "checkValidEscapes s \<Longrightarrow> checkValidEscapes (map ascii_lower s)"
proof (induction s rule: checkValidEscapes.induct)
  case (2 c s)
  show ?case
  proof (cases "c = BSL")
    case False
    with 2 ascii_lower_BSL [of c] show ?thesis by simp
  next
    case True
    with "2.prems" obtain d s' where s: "s = d # s'"
      and d: "d = CHR ''n'' \<or> d = CHR ''r'' \<or> d = CHR ''c'' \<or> d = BSL" and ok: "checkValidEscapes s'"
      by (auto split: list.splits if_splits)
    from d have "ascii_lower d = d" by (elim disjE) (simp_all add: ascii_lower_escape_chars)
    with True s d ok "2.IH"(1) [OF True s] show ?thesis
      by (auto simp: ascii_lower_escape_chars)
  qed
qed simp

text \<open>
  What the properties need of the other packages: a UUID has no backslash, and lower case
  beyond ASCII does not break an escape sequence.
\<close>

definition env_ok :: "env \<Rightarrow> bool" where
  "env_ok env \<longleftrightarrow>
     (\<forall>n. BSL \<notin> set (newUUID env n)) \<and>
     (\<forall>s. checkValidEscapes s \<longrightarrow> checkValidEscapes (unicode_lower env s))"

lemma env_ok_uuid: "env_ok env \<Longrightarrow> checkValidEscapes (newUUID env n)"
  by (simp add: env_ok_def checkValidEscapes_plain)

lemma to_lower_valid:
  "env_ok env \<Longrightarrow> checkValidEscapes s \<Longrightarrow> checkValidEscapes (to_lower (unicode_lower env) s)"
  by (simp add: to_lower_def checkValidEscapes_lower env_ok_def)

lemma fmtAckNum_valid:
  "checkValidEscapes dest \<Longrightarrow> checkValidEscapes i \<Longrightarrow> checkValidEscapes (fmtAckNum dest i n)"
  unfolding fmtAckNum_def
  by (simp add: checkValidEscapes_append checkValidEscapes_plain not_in_itoa)

text \<open>The header names and values of a frame that has been validated.\<close>

definition valid_headers :: "(Header, string) gomap \<Rightarrow> bool" where
  "valid_headers hs \<longleftrightarrow> list_all (\<lambda>(k, v). checkValidEscapes k \<and> checkValidEscapes v) hs"

lemma valid_headers_iff:
  "valid_headers hs \<longleftrightarrow> (\<forall>k v. (k, v) \<in> set hs \<longrightarrow> checkValidEscapes k \<and> checkValidEscapes v)"
  by (auto simp: valid_headers_def list_all_iff)

lemma Validate_valid_headers: "Validate s f = Ret () \<Longrightarrow> valid_headers (headers f)"
  unfolding valid_headers_iff using Validate_escapes by blast

lemma getHeader_valid: "valid_headers (headers f) \<Longrightarrow> checkValidEscapes (getHeader f h)"
  by (auto simp: getHeader_def valid_headers_iff dest: map_of_SomeD split: option.splits)

text \<open>A MESSAGE is valid exactly when its headers are; it always has what it must have.\<close>

lemma message_frame_row:
  "gm_get validationMap CmdMessage = Some \<lparr>required = [HdrKeyDestination, HdrKeyMessageID, HdrKeySubscription],
     optional = [HdrKeyAck]\<rparr>"
  by (simp add: validationMap_def)

lemma Validate_message:
  "Validate ServerFrame (message_frame env m dest i n tx f) = Ret () \<longleftrightarrow>
     valid_headers (headers (message_frame env m dest i n tx f))"
proof -
  have c: "command (message_frame env m dest i n tx f) = CmdMessage"
    by (simp add: message_frame_def NewFrame_def)
  show ?thesis
    unfolding Validate_server_iff c message_frame_row
    using message_headers_required
    by (auto simp: conforms_def valid_headers_def serverCmdSet_def customHeadersAllowed_def c
        message_frame_def NewFrame_def list_all_iff)
qed

lemma message_frame_valid:
  assumes "env_ok env" and "checkValidEscapes dest" and "checkValidEscapes i" and "checkValidEscapes tx"
    and "valid_headers (headers f)"
  shows "Validate ServerFrame (message_frame env m dest i n tx f) = Ret ()"
  unfolding Validate_message valid_headers_iff
proof (intro allI impI)
  fix k v
  assume "(k, v) \<in> set (headers (message_frame env m dest i n tx f))"
  from message_headers_entries [OF this [unfolded message_frame_def NewFrame_def Frame.simps]]
  show "checkValidEscapes k \<and> checkValidEscapes v"
    using assms env_ok_uuid fmtAckNum_valid to_lower_valid
    by (auto simp: valid_headers_iff checkValidEscapes_plain)
qed

lemma send_result: "snd (send env sid cmd h b st) = Ret () \<or> (\<exists>e. snd (send env sid cmd h b st) = Fail e)"
  by (cases rule: send_cases [of cmd h b env sid st])
    (auto simp: write_session_result split: option.splits)

lemma sendMessage_valid:
  assumes "Validate ServerFrame (message_frame env (uuids st) dest i n tx f) = Ret ()"
  shows "sendMessage env sid dest i n tx (headers f) (body f) st =
    write_session env sid (serialize (message_frame env (uuids st) dest i n tx f))
      (st\<lparr>uuids := Suc (uuids st)\<rparr>)"
  using assms by (simp add: sendMessage_def send_def message_frame_def Let_def)

lemma sendMessage_only: "only_writes sid st (fst (sendMessage env sid dest i n tx hs b st))"
proof -
  have "only_writes sid (st\<lparr>uuids := Suc (uuids st)\<rparr>)
      (fst (sendMessage env sid dest i n tx hs b st))"
    unfolding sendMessage_def by (rule send_only)
  then show ?thesis by (rule only_writes_uuids) simp
qed

lemma sendMessage_result:
  obtains "snd (sendMessage env sid dest i n tx hs b st) = Ret ()"
  | e where "snd (sendMessage env sid dest i n tx hs b st) = Fail e"
  unfolding sendMessage_def using send_result by blast

section \<open>What publishing changes\<close>

text \<open>
  \<open>same_control st st'\<close>: from \<open>st\<close> to \<open>st'\<close> only connections, the UUID counter (upwards) and
  the registry may have changed.
\<close>

definition same_control :: "broker \<Rightarrow> broker \<Rightarrow> bool" where
  "same_control st st' \<longleftrightarrow>
     txBuffer st' = txBuffer st \<and> routine st' = routine st \<and>
     wgSessions st' = wgSessions st \<and> jobs st' = jobs st \<and> njobs st' = njobs st \<and>
     uuids st \<le> uuids st' \<and>
     (\<forall>s. \<exists>c. session_at st' s = (session_at st s)\<lparr>sess_conn := c\<rparr>)"

lemma same_control_refl [simp]: "same_control st st"
proof -
  have "\<exists>c. session_at st s = (session_at st s)\<lparr>sess_conn := c\<rparr>" for s
    by (rule exI [of _ "sess_conn (session_at st s)"]) simp
  then show ?thesis by (simp add: same_control_def)
qed

lemma same_control_trans [trans]:
  "same_control st st' \<Longrightarrow> same_control st' st'' \<Longrightarrow> same_control st st''"
  unfolding same_control_def
  by (metis (no_types, lifting) Session.update_convs(1) Session.surjective le_trans)

lemma same_control_reg [simp]: "same_control st (st'\<lparr>reg := r\<rparr>) = same_control st st'"
  "same_control (st\<lparr>reg := r\<rparr>) st' = same_control st st'"
  by (simp_all add: same_control_def)

lemma only_writes_control:
  assumes "only_writes sid st st'"
  shows "same_control st st'"
proof -
  obtain c where c: "session_at st' = (session_at st)(sid := (session_at st sid)\<lparr>sess_conn := c\<rparr>)"
    using assms by (auto simp: only_writes_def)
  have "\<exists>d. session_at st' s = (session_at st s)\<lparr>sess_conn := d\<rparr>" for s
    using c by (cases "s = sid") (auto intro: exI [of _ "sess_conn (session_at st s)"])
  with only_writes_same [OF assms] show ?thesis by (simp add: same_control_def)
qed

lemma live_mark_sent:
  "live (mark_sent d i r) j =
     map_option (\<lambda>(d', info). (d', if d' = d \<and> j = i then
        info\<lparr>pendingAckBitmap := insert (nextAckNum info) (pendingAckBitmap info),
             nextAckNum := nextAckNum info + 1\<rparr> else info)) (live r j)"
proof -
  have "gm_get (map (\<lambda>(k, x). (k, if k = i then g x else x)) m) j =
      map_option (\<lambda>x. if j = i then g x else x) (gm_get m j)" for g and m :: subsToInfo
    by (induction m) auto
  then show ?thesis
    by (auto simp: live_def mark_sent_def subs_at_def option.map_comp comp_def split: option.splits)
qed

lemma mark_sent_sess [simp]: "sessToSubsMap (mark_sent d i r) = sessToSubsMap r"
  by (simp add: mark_sent_def)

lemma abs_mark_sent [simp]: "abs_registry (mark_sent d i r) = abs_registry r"
  by (auto simp: fun_eq_iff abs_registry_def live_mark_sent option.map_comp comp_def
      intro!: option.map_cong)

lemma reg_inv_mark_sent:
  assumes "reg_inv r"
  shows "reg_inv (mark_sent d i r)"
proof (rule reg_invI, goal_cases)
  case (1 d' m)
  then obtain m' where "destToSubsMap r d' = Some m'" "length m = length m'"
    by (auto simp: mark_sent_def split: if_splits)
  with reg_inv_single [OF assms, of d' m'] have "length m = 1" by auto
  then show ?case by (cases m) auto
next
  case (2 j d' info)
  then obtain info' where "live r j = Some (d', info')" "sessionHandler info' = sessionHandler info"
    by (auto simp: live_mark_sent split: if_splits)
  with reg_inv_member [OF assms, of j d' info'] show ?case by simp
next
  case (3 s ms)
  with reg_inv_distinct [OF assms] show ?case by simp
qed

text \<open>Publishing keeps every property of the registry that \<open>mark_sent\<close> keeps.\<close>

lemma publish_each_reg:
  assumes keep: "\<And>i r. P r \<Longrightarrow> P (mark_sent dest i r)"
  shows "P (reg st) \<Longrightarrow> P (reg (fst (publish_each env dest tx f subs st)))"
proof (induction subs arbitrary: st)
  case (Cons x subs)
  obtain i info where x: "x = (i, info)" by (cases x)
  obtain st' r where s: "sendMessage env (sessionHandler info) dest i (nextAckNum info) tx
      (headers f) (body f) st = (st', r)" by fastforce
  then have "only_writes (sessionHandler info) st st'"
    using sendMessage_only [of "sessionHandler info" st] by (metis fst_conv)
  with Cons.prems have P: "P (reg st')" by (simp add: only_writes_same)
  show ?case
  proof (cases r)
    case (Ret u)
    with Cons.IH [of "st'\<lparr>reg := mark_sent dest i (reg st')\<rparr>"] keep [OF P] s x show ?thesis by simp
  next
    case (Fail e)
    with Cons.IH [OF P] s x show ?thesis by (auto split: prod.splits outcome.splits)
  qed (use s P x in simp_all)
qed simp

lemma publish_each_control: "same_control st (fst (publish_each env dest tx f subs st))"
proof (induction subs arbitrary: st)
  case (Cons x subs)
  obtain i info where x: "x = (i, info)" by (cases x)
  obtain st' r where s: "sendMessage env (sessionHandler info) dest i (nextAckNum info) tx
      (headers f) (body f) st = (st', r)" by fastforce
  then have c: "same_control st st'"
    using only_writes_control [OF sendMessage_only [of "sessionHandler info" st]] by (metis fst_conv)
  show ?case
  proof (cases r)
    case (Ret u)
    have "same_control st' (fst (publish_each env dest tx f subs (st'\<lparr>reg := mark_sent dest i (reg st')\<rparr>)))"
      using Cons.IH [of "st'\<lparr>reg := mark_sent dest i (reg st')\<rparr>"] by simp
    with same_control_trans [OF c] Ret s x show ?thesis by simp
  next
    case (Fail e)
    with same_control_trans [OF c Cons.IH [of st']] s x show ?thesis
      by (auto split: prod.splits outcome.splits)
  qed (use s c x in simp_all)
qed simp

lemma publish_control: "same_control st (fst (publish env f tx st))"
  by (simp add: publish_def Let_def publish_each_control)

lemma publish_reg:
  "(\<And>i r. P r \<Longrightarrow> P (mark_sent (getHeader f HdrKeyDestination) i r)) \<Longrightarrow> P (reg st) \<Longrightarrow>
     P (reg (fst (publish env f tx st)))"
  by (simp add: publish_def Let_def publish_each_reg [where P = P])

lemma publish_abs: "abs_registry (reg (fst (publish env f tx st))) = abs_registry (reg st)"
  by (rule publish_reg) simp_all

lemma publish_reg_inv: "reg_inv (reg st) \<Longrightarrow> reg_inv (reg (fst (publish env f tx st)))"
  by (rule publish_reg) (simp_all add: reg_inv_mark_sent)

lemma publish_nobody:
  "getHeader f HdrKeyDestination \<noteq> '''' \<Longrightarrow> subs_at (reg st) (getHeader f HdrKeyDestination) = [] \<Longrightarrow>
     publish env f tx st = (st, Ret ())"
  by (simp add: publish_def)

text \<open>
  One subscriber: the MESSAGE is written to its connection and counted as pending, and
  when it cannot be sent the publisher waits forever.
\<close>

definition message_bytes :: "env \<Rightarrow> broker \<Rightarrow> string \<Rightarrow> string \<Rightarrow> subsInfo \<Rightarrow> string \<Rightarrow> Frame \<Rightarrow> string" where
  "message_bytes env st dest i info tx f =
     serialize (message_frame env (uuids st) dest i (nextAckNum info) tx f)"

lemma publish_one:
  assumes dest: "getHeader f HdrKeyDestination = dest" "dest \<noteq> ''''"
    and one: "subs_at (reg st) dest = [(i, info)]"
    and valid: "Validate ServerFrame (message_frame env (uuids st) dest i (nextAckNum info) tx f) = Ret ()"
  shows "publish env f tx st =
    (case write_session env (sessionHandler info) (message_bytes env st dest i info tx f)
            (st\<lparr>uuids := Suc (uuids st)\<rparr>) of
       (st', Ret _) \<Rightarrow> (st'\<lparr>reg := mark_sent dest i (reg st')\<rparr>, Ret ())
     | (st', Fail _) \<Rightarrow> (st', Block)
     | (st', Panic p) \<Rightarrow> (st', Panic p)
     | (st', Block) \<Rightarrow> (st', Block))"
  using dest one
  by (auto simp: publish_def sendMessage_valid [OF valid] message_bytes_def
      split: prod.splits outcome.splits)

lemma publish_one_result:
  assumes "getHeader f HdrKeyDestination = dest" "dest \<noteq> ''''"
    and "subs_at (reg st) dest = [(i, info)]"
    and "Validate ServerFrame (message_frame env (uuids st) dest i (nextAckNum info) tx f) = Ret ()"
  shows "snd (publish env f tx st) =
    (if deliver env (sess_conn (session_at st (sessionHandler info))) (message_bytes env st dest i info tx f) = None
     then Ret () else Block)"
  unfolding publish_one [OF assms] write_session_def retry_write_def
  by (simp split: option.splits)

lemma publish_one_sent:
  assumes "getHeader f HdrKeyDestination = dest" "dest \<noteq> ''''"
    and "subs_at (reg st) dest = [(i, info)]"
    and "Validate ServerFrame (message_frame env (uuids st) dest i (nextAckNum info) tx f) = Ret ()"
  shows "sent_to (fst (publish env f tx st)) s =
    sent_to st s @
      (if s = sessionHandler info \<and> snd (publish env f tx st) = Ret ()
       then [message_bytes env st dest i info tx f] else [])"
  unfolding publish_one_result [OF assms]
  unfolding publish_one [OF assms] write_session_def retry_write_def
  by (simp add: sent_to_def update_session_def split: option.splits)

lemma publish_not_panic: "\<not> is_panic (snd (publish env f tx st))"
proof -
  have "\<not> is_panic (snd (publish_each env dest tx f subs st))" for dest subs
  proof (induction subs arbitrary: st)
    case (Cons x subs)
    obtain i info where x: "x = (i, info)" by (cases x)
    obtain st' r where s: "sendMessage env (sessionHandler info) dest i (nextAckNum info) tx
        (headers f) (body f) st = (st', r)" by fastforce
    then have "r = Ret () \<or> (\<exists>e. r = Fail e)"
      using sendMessage_result [of env "sessionHandler info"] by (metis snd_conv)
    with Cons s x show ?case by (auto split: prod.splits outcome.splits)
      (metis is_panic.simps(1) snd_conv)
  qed simp
  then show ?thesis by (simp add: publish_def Let_def)
qed

end
