(* ===== verification/Broker.thy ===== *)
theory Broker
  imports Sessions
begin

text \<open>
  The broker of \<^verbatim>\<open>pkg/stomp/broker.go\<close>: heart-beat negotiation, CONNECT, the state machine, the
  loop of a session, its clean-up, and the options of \<open>StartBroker\<close>; and the process as a
  machine whose steps are the events of its connections (\<open>broker_step\<close>). The goroutines of
  the sessions interleave frame by frame: one step handles one frame to its end.
\<close>

section \<open>Heart-beats\<close>

text \<open>The end of \<open>negotiateHeartbeats\<close>: the job is scheduled by the negotiated interval.\<close>

definition schedule_heartbeats :: "env \<Rightarrow> string \<Rightarrow> broker \<Rightarrow> broker \<times> unit result" where
  "schedule_heartbeats env sid st =
     (let sess = session_at st sid;
          (job, err) = sched_do env (njobs st) (hbSendIntervalMsec sess) (sessionID sess);
          st = update_session sid (\<lambda>sess. sess\<lparr>hbJob := job\<rparr>) (st\<lparr>njobs := Suc (njobs st)\<rparr>)
      in (case err of
            Some e \<Rightarrow> (st, Fail (errorMsg errBrokerStateMachine
              (''Heartbeat setup error: '' @ error_text e)))
          | None \<Rightarrow>
              (st\<lparr>jobs := (case job of None \<Rightarrow> jobs st | Some j \<Rightarrow> jobs st @ [(j, sid)])\<rparr>, Ret ())))"

definition negotiateHeartbeats :: "env \<Rightarrow> string \<Rightarrow> string \<Rightarrow> broker \<Rightarrow> broker \<times> unit result" where
  "negotiateHeartbeats env sid hbVal st =
     (case parseHbVal hbVal of
        Fail err \<Rightarrow> (st, Fail err)
      | Panic p \<Rightarrow> (st, Panic p)
      | Block \<Rightarrow> (st, Block)
      | Ret (clientSendInterval, clientRecvInterval) \<Rightarrow>
          let st = update_session sid (\<lambda>sess.
                if clientSendInterval = 0 \<or> hbRecvIntervalMsec sess = 0 then
                  sess\<lparr>hbRecvIntervalMsec := 0\<rparr>
                else if clientSendInterval > hbRecvIntervalMsec sess then
                  sess\<lparr>hbRecvIntervalMsec := clientSendInterval\<rparr>
                else sess) st;
              sess = session_at st sid
          in if clientRecvInterval = 0 \<or> hbSendIntervalMsec sess = 0 then
               (update_session sid (\<lambda>sess. sess\<lparr>hbSendIntervalMsec := 0\<rparr>) st, Ret ())
             else
               schedule_heartbeats env sid (update_session sid (\<lambda>sess.
                 if clientRecvInterval > hbSendIntervalMsec sess then
                   sess\<lparr>hbSendIntervalMsec := clientRecvInterval\<rparr>
                 else sess) st))"

section \<open>CONNECT\<close>

definition connect_login :: "env \<Rightarrow> string \<Rightarrow> Frame \<Rightarrow> broker \<Rightarrow> broker \<times> unit result" where
  "connect_login env sid f st =
     (case loginFunc (session_at st sid) of
        None \<Rightarrow> (st, Ret ())
      | Some login_fn \<Rightarrow>
          (case login_fn (getHeader f HdrKeyLogin) (getHeader f HdrKeyPassCode) of
             None \<Rightarrow> (st, Ret ())
           | Some err \<Rightarrow>
               regardless
                 (sendError env sid (OtherErr ''login failed'')
                   (''Authentication failed:'' @ [LF] @ error_text err) st)
                 (\<lambda>st. (st, Fail (errorMsg errBrokerStateMachine (''Login error: '' @ error_text err))))))"

text \<open>The loop over the versions that the client accepts.\<close>

fun pick_version :: "string list \<Rightarrow> string" where
  "pick_version [] = ''''"
| "pick_version (v # vs) = (if v = ''1.2'' then ''1.2'' else pick_version vs)"

definition connect_heartbeats :: "env \<Rightarrow> string \<Rightarrow> Frame \<Rightarrow> broker \<Rightarrow> broker \<times> unit result" where
  "connect_heartbeats env sid f st =
     (let hbVal = getHeader f HdrKeyHeartBeat
      in if hbVal \<noteq> '''' then
           (case negotiateHeartbeats env sid hbVal st of
              (st, Fail err) \<Rightarrow> (st, Fail (errorMsg errBrokerStateMachine
                (''Heartbeat negotiation: '' @ error_text err)))
            | r \<Rightarrow> r)
         else (st, Ret ()))"

definition handleConnect :: "env \<Rightarrow> string \<Rightarrow> Frame \<Rightarrow> broker \<Rightarrow> broker \<times> unit result" where
  "handleConnect env sid f st =
     and_then (connect_login env sid f st) (\<lambda>_ st.
       let ver = pick_version (split_on (CHR '','') (getHeader f HdrKeyAcceptVersion))
       in if ver = '''' then
            (st, Fail (errorMsg errBrokerStateMachine
              (''Invalid client version received: '' @ getHeader f HdrKeyVersion)))
          else
            and_then (connect_heartbeats env sid f st) (\<lambda>_ st. send env sid CmdConnected
                    [(HdrKeyVersion, ver),
                     (HdrKeySession, sessionID (session_at st sid)),
                     (HdrKeyServer, ''go-proto-stomp/'' @ releaseVersion env),
                     (HdrKeyHeartBeat, fmt_hb (hbSendIntervalMsec (session_at st sid))
                                              (hbRecvIntervalMsec (session_at st sid)))]
                    None st))"

section \<open>The state machine\<close>

definition close_conn :: "string \<Rightarrow> broker \<Rightarrow> broker" where
  "close_conn sid st =
     update_session sid (\<lambda>s. s\<lparr>sess_conn := (sess_conn s)\<lparr>conn_closed := True\<rparr>\<rparr>) st"

definition stateMachine :: "env \<Rightarrow> string \<Rightarrow> Frame \<Rightarrow> broker \<Rightarrow> broker \<times> unit result" where
  "stateMachine env sid f st =
     (if command f = CmdConnect \<or> command f = CmdStomp then handleConnect env sid f st
      else if command f = CmdSend then
        (let txID = getHeader f HdrKeyTransaction
         in if txID \<noteq> '''' then on_tx (bufferTxMessage txID f) st
            else publish env f '''' st)
      else if command f = CmdSubscribe then
        (let ackStr = getHeader f HdrKeyAck;
             ack = (if ackStr = '''' then ackStr else HdrValAckAuto)
         in on_reg (addSubscription (getHeader f HdrKeyDestination) (getHeader f HdrKeyID) ack sid) st)
      else if command f = CmdUnsubscribe then
        on_reg (removeSubscription (getHeader f HdrKeyID)) st
      else if command f = CmdAck then
        on_reg (processAck (bitmap_minimum env) (gm_str (headers f) HdrKeyID)) st
      else if command f = CmdNack then (st, Ret ())
      else if command f = CmdBegin then on_tx (startTx (getHeader f HdrKeyTransaction)) st
      else if command f = CmdCommit then
        (let txID = getHeader f HdrKeyTransaction
         in foreachTx txID (txBuffer st) (\<lambda>frameTx. publish env frameTx txID) st)
      else if command f = CmdAbort then on_tx (dropTx (getHeader f HdrKeyTransaction)) st
      else if command f = CmdDisconnect then
        regardless (on_reg (cleanupSubscriptions (range_order env (uuids st)) (sessionID (session_at st sid))) st) (\<lambda>st.
        regardless (send env sid CmdReceipt [(HdrKeyReceiptID, getHeader f HdrKeyReceipt)] None st) (\<lambda>st.
          (close_conn sid st, Ret ())))
      else (st, Ret ()))"

section \<open>The session\<close>

definition cleanup :: "string \<Rightarrow> broker \<Rightarrow> broker \<times> unit result" where
  "cleanup sid st =
     (let st = close_conn sid st
      in if wgSessions st = 0 then (st, Panic NegativeWaitGroup)
         else
           let st = st\<lparr>wgSessions := wgSessions st - 1\<rparr>
           in (case hbJob (session_at st sid) of
                 None \<Rightarrow> (st, Ret ())
               | Some j \<Rightarrow> (st\<lparr>jobs := filter (\<lambda>(j', s). j' \<noteq> j) (jobs st)\<rparr>, Ret ())))"

text \<open>
  The body of the loop of \<open>Start\<close>; \<open>Fail\<close> is the return out of the loop. After a parse
  error \<open>frame\<close> is the nil pointer, and \<open>frame.String()\<close> dereferences it.
\<close>

definition handle_raw :: "env \<Rightarrow> string \<Rightarrow> string \<Rightarrow> broker \<Rightarrow> broker \<times> unit result" where
  "handle_raw env sid raw st =
     (case NewFrameFromBytes raw of
        Fail err \<Rightarrow> (st, Panic NilDeref)
      | Panic p \<Rightarrow> (st, Panic p)
      | Block \<Rightarrow> (st, Block)
      | Ret frame \<Rightarrow>
          (case Validate ClientFrame frame of
             Fail err \<Rightarrow>
               regardless (sendError env sid err (''Frame validation error:'' @ Frame_String frame) st)
                 (\<lambda>st. (st, Fail err))
           | Panic p \<Rightarrow> (st, Panic p)
           | Block \<Rightarrow> (st, Block)
           | Ret _ \<Rightarrow> stateMachine env sid frame st))"

fun Start_loop :: "env \<Rightarrow> string \<Rightarrow> string list \<Rightarrow> broker \<Rightarrow> broker \<times> unit result" where
  "Start_loop env sid [] st = (st, Ret ())"
| "Start_loop env sid (raw # raws) st =
     (case handle_raw env sid raw st of
        (st', Ret _) \<Rightarrow> Start_loop env sid raws st'
      | (st', Fail err) \<Rightarrow> (st', Ret ())
      | (st', Panic p) \<Rightarrow> (st', Panic p)
      | (st', Block) \<Rightarrow> (st', Block))"

text \<open>The deferred \<open>cleanup\<close> runs when the loop ends, and before a panic ends the process.\<close>

definition Start :: "env \<Rightarrow> string \<Rightarrow> string list \<Rightarrow> broker \<Rightarrow> broker \<times> unit result" where
  "Start env sid raws st =
     (case Start_loop env sid raws st of
        (st', Block) \<Rightarrow> (st', Block)
      | (st', Panic p) \<Rightarrow> (fst (cleanup sid st'), Panic p)
      | (st', _) \<Rightarrow> cleanup sid st')"

declare schedule_heartbeats_def [go_eval] negotiateHeartbeats_def [go_eval] connect_login_def [go_eval] connect_heartbeats_def [go_eval] handleConnect_def [go_eval]
  close_conn_def [go_eval] stateMachine_def [go_eval] cleanup_def [go_eval] handle_raw_def [go_eval]
  Start_def [go_eval]

section \<open>The process\<close>

record BrokerOpts =
  Transport :: string
  Host :: string
  Port :: string
  LoginFunc :: "LoginFunc option"
  HeartbeatSendIntervalMsec :: int
  HeartbeatReceiveIntervalMsec :: int

definition default_opts :: "BrokerOpts \<Rightarrow> BrokerOpts" where
  "default_opts opts =
     (let opts = (if Host opts = '''' then opts\<lparr>Host := ''localhost''\<rparr> else opts);
          opts = (if Port opts = '''' then opts\<lparr>Port := DefaultPort\<rparr> else opts);
          opts = (if Transport opts = '''' then opts\<lparr>Transport := TransportTCP\<rparr> else opts);
          opts = (if HeartbeatSendIntervalMsec opts < 0 then opts\<lparr>HeartbeatSendIntervalMsec := 0\<rparr> else opts);
          opts = (if HeartbeatReceiveIntervalMsec opts < 0 then opts\<lparr>HeartbeatReceiveIntervalMsec := 0\<rparr> else opts)
      in opts)"

text \<open>
  The two servers are parameters (they open a socket); an unknown transport leaves the
  broker nil and the error nil.
\<close>

definition StartBroker ::
  "(BrokerOpts \<Rightarrow> 'b result) \<Rightarrow> (BrokerOpts \<Rightarrow> 'b result) \<Rightarrow> BrokerOpts \<Rightarrow> 'b option result" where
  "StartBroker startTcpBroker startWebsocketBroker opts =
     (let opts = default_opts opts;
          started = (\<lambda>r. case r of Ret b \<Rightarrow> Ret (Some b) | Fail e \<Rightarrow> Fail e | Panic p \<Rightarrow> Panic p | Block \<Rightarrow> Block)
      in if Transport opts = TransportTCP then started (startTcpBroker opts)
         else if Transport opts = TransportWebsocket then started (startWebsocketBroker opts)
         else Ret None)"

text \<open>
  The events: a connection is accepted (\<open>wgSessions.Add(1); go NewSession(...).Start()\<close>), the
  scanner of a session yields a frame or ends, a heart-beat job fires, the peer or the
  network closes a connection.
\<close>

datatype event =
    Accept
  | Incoming string string
  | Eof string
  | Tick nat
  | Hangup string

definition broker_start :: "registry \<Rightarrow> broker" where
  "broker_start r =
     \<lparr>session_at = \<lambda>_. NewSession '''' new_conn None 0 0, routine = \<lambda>_. NotStarted, wgSessions = 0,
      reg = r, txBuffer = Map.empty, uuids = 0, jobs = [], njobs = 0\<rparr>"

definition accept :: "env \<Rightarrow> BrokerOpts \<Rightarrow> broker \<Rightarrow> broker" where
  "accept env opts st =
     (let sid = newUUID env (uuids st)
      in st\<lparr>wgSessions := wgSessions st + 1, uuids := Suc (uuids st),
            session_at := (session_at st)(sid := NewSession sid new_conn (LoginFunc opts)
              (HeartbeatSendIntervalMsec opts) (HeartbeatReceiveIntervalMsec opts)),
            routine := (routine st)(sid := Running)\<rparr>)"

definition set_routine :: "string \<Rightarrow> goroutine \<Rightarrow> broker \<Rightarrow> broker" where
  "set_routine sid g st = st\<lparr>routine := (routine st)(sid := g)\<rparr>"

fun broker_step :: "env \<Rightarrow> BrokerOpts \<Rightarrow> event \<Rightarrow> broker \<Rightarrow> broker \<times> unit result" where
  "broker_step env opts Accept st = (accept env opts st, Ret ())"
| "broker_step env opts (Incoming sid raw) st =
     (if routine st sid \<noteq> Running then (st, Ret ())
      else (case handle_raw env sid raw st of
              (st', Ret _) \<Rightarrow> (st', Ret ())
            | (st', Fail err) \<Rightarrow> cleanup sid (set_routine sid Ended st')
            | (st', Panic p) \<Rightarrow> (fst (cleanup sid (set_routine sid Ended st')), Panic p)
            | (st', Block) \<Rightarrow> (set_routine sid Stuck st', Ret ())))"
| "broker_step env opts (Eof sid) st =
     (if routine st sid \<noteq> Running then (st, Ret ())
      else cleanup sid (set_routine sid Ended st))"
| "broker_step env opts (Tick j) st =
     (case map_of (jobs st) j of
        None \<Rightarrow> (st, Ret ())
      | Some sid \<Rightarrow> regardless (sendRaw env sid [LF] st) (\<lambda>st. (st, Ret ())))"
| "broker_step env opts (Hangup sid) st = (close_conn sid st, Ret ())"

declare default_opts_def [go_eval] StartBroker_def [go_eval] broker_start_def [go_eval]
  accept_def [go_eval] set_routine_def [go_eval]

lemma default_opts_values:
  "Host (default_opts opts) = (if Host opts = '''' then ''localhost'' else Host opts)"
  "Port (default_opts opts) = (if Port opts = '''' then DefaultPort else Port opts)"
  "Transport (default_opts opts) = (if Transport opts = '''' then TransportTCP else Transport opts)"
  "HeartbeatSendIntervalMsec (default_opts opts) = max 0 (HeartbeatSendIntervalMsec opts)"
  "HeartbeatReceiveIntervalMsec (default_opts opts) = max 0 (HeartbeatReceiveIntervalMsec opts)"
  "LoginFunc (default_opts opts) = LoginFunc opts"
  by (simp_all add: default_opts_def Let_def max_def)

section \<open>Heart-beats meet the contract\<close>

abbreviation hb_send :: "string \<Rightarrow> broker \<Rightarrow> int" where
  "hb_send sid st \<equiv> hbSendIntervalMsec (session_at st sid)"

abbreviation hb_recv :: "string \<Rightarrow> broker \<Rightarrow> int" where
  "hb_recv sid st \<equiv> hbRecvIntervalMsec (session_at st sid)"

lemma schedule_heartbeats_same:
  "hb_send sid (fst (schedule_heartbeats env sid st)) = hb_send sid st"
  "hb_recv sid (fst (schedule_heartbeats env sid st)) = hb_recv sid st"
  by (simp_all add: schedule_heartbeats_def Let_def update_session_def split: prod.splits option.splits)

interpretation broker_hb: hb_peer "negotiateHeartbeats env sid" "hb_send sid" "hb_recv sid" for env sid
proof
  fix v a b st
  assume "parseHbVal v = Ret (a, b)"
  then show "hb_send sid (fst (negotiateHeartbeats env sid v st)) = negotiated (hb_send sid st) b \<and>
      hb_recv sid (fst (negotiateHeartbeats env sid v st)) = negotiated (hb_recv sid st) a"
    by (auto simp: negotiateHeartbeats_def Let_def schedule_heartbeats_same update_session_def
        negotiated_def)
next
  fix v st
  assume "\<not> is_ret (parseHbVal v)"
  with parseHbVal_result [of v]
  show "fst (negotiateHeartbeats env sid v st) = st \<and> is_fail (snd (negotiateHeartbeats env sid v st))"
    by (cases "parseHbVal v") (simp_all add: negotiateHeartbeats_def)
qed

end
