(* ===== verification/Broker_Invariants.thy ===== *)
theory Broker_Invariants
  imports Broker
begin

text \<open>
  The invariants of the broker process: the registry, the transaction buffer, the modes of the
  subscriptions, the frames that wait in transactions, and the wait group, kept by every
  event (\<open>process_machine\<close>); and what follows from them: when a frame panics the process,
  and what a publish and a COMMIT deliver.
\<close>

section \<open>What a step of a session leaves alone\<close>

definition same_core :: "broker \<Rightarrow> broker \<Rightarrow> bool" where
  "same_core st st' \<longleftrightarrow>
     reg st' = reg st \<and> txBuffer st' = txBuffer st \<and> routine st' = routine st \<and>
     wgSessions st' = wgSessions st \<and> uuids st \<le> uuids st'"

lemma same_core_refl [simp]: "same_core st st"
  by (simp add: same_core_def)

lemma same_core_trans: "same_core st st' \<Longrightarrow> same_core st' st'' \<Longrightarrow> same_core st st''"
  by (auto simp: same_core_def)

lemma same_core_writes: "only_writes sid st st' \<Longrightarrow> same_core st st'"
  by (simp add: same_core_def only_writes_same)

lemma same_core_session [simp]: "same_core st (update_session sid g st)"
  by (simp add: same_core_def update_session_def)

lemma same_core_and_then:
  "same_core st (fst r) \<Longrightarrow> (\<And>x s. same_core s (fst (k x s))) \<Longrightarrow> same_core st (fst (and_then r k))"
  by (rule and_then_fst) (auto intro: same_core_trans)

lemma same_core_regardless:
  "same_core st (fst r) \<Longrightarrow> (\<And>s. same_core s (fst (k s))) \<Longrightarrow> same_core st (fst (regardless r k))"
  by (rule regardless_fst) (auto intro: same_core_trans)

lemma same_core_send: "same_core st (fst (send env sid cmd h b st))"
  by (rule same_core_writes) (rule send_only)

lemma same_core_close [simp]: "same_core st (close_conn sid st)"
  by (simp add: close_conn_def)

lemma same_core_schedule: "same_core st (fst (schedule_heartbeats env sid st))"
  by (simp add: schedule_heartbeats_def same_core_def Let_def update_session_def
      split: prod.splits option.splits)

lemma same_core_negotiate: "same_core st (fst (negotiateHeartbeats env sid v st))"
proof -
  have two: "same_core st (update_session sid g (update_session sid h st))" for g h
    by (rule same_core_trans [OF same_core_session same_core_session])
  have "same_core st (fst (schedule_heartbeats env sid (update_session sid g (update_session sid h st))))"
    for g h
    by (rule same_core_trans [OF two same_core_schedule])
  with two show ?thesis
    by (simp add: negotiateHeartbeats_def Let_def split: outcome.splits prod.splits)
qed

lemma same_core_login: "same_core st (fst (connect_login env sid f st))"
  unfolding connect_login_def
  by (auto simp: sendError_def intro!: same_core_regardless same_core_send split: option.splits)

lemma same_core_heartbeats: "same_core st (fst (connect_heartbeats env sid f st))"
  using same_core_negotiate [of st env sid "getHeader f HdrKeyHeartBeat"]
  by (auto simp: connect_heartbeats_def Let_def split: prod.splits outcome.splits)

lemma same_core_connect: "same_core st (fst (handleConnect env sid f st))"
  unfolding handleConnect_def Let_def
  by (intro same_core_and_then same_core_login)
    (auto intro!: same_core_and_then same_core_send same_core_heartbeats)

section \<open>The invariant of the data\<close>

definition good_entry :: "string \<Rightarrow> string \<Rightarrow> subsInfo \<Rightarrow> bool" where
  "good_entry d i info \<longleftrightarrow> auto_mode d i info \<and> checkValidEscapes i"

definition good_frame :: "Frame \<Rightarrow> bool" where
  "good_frame f \<longleftrightarrow> command f = CmdSend \<and> Validate ClientFrame f = Ret ()"

definition core_inv :: "broker \<Rightarrow> bool" where
  "core_inv st \<longleftrightarrow>
     reg_inv (reg st) \<and> entries good_entry (reg st) \<and>
     tx_inv (txBuffer st) \<and> tx_frames good_frame (txBuffer st)"

lemma core_inv_same: "same_core st st' \<Longrightarrow> core_inv st' = core_inv st"
  by (simp add: same_core_def core_inv_def)

lemma good_entries_auto: "entries good_entry r \<Longrightarrow> entries auto_mode r"
  by (auto simp: entries_def good_entry_def)

lemma on_reg_core:
  assumes "core_inv st" and "reg_inv (fst (g (reg st)))" and "entries good_entry (fst (g (reg st)))"
  shows "core_inv (fst (on_reg g st))"
  using assms by (auto simp: on_reg_def core_inv_def split: prod.splits)

lemma on_tx_core:
  assumes "core_inv st" and "\<And>i m. x = TxAdd i m \<Longrightarrow> good_frame m"
  shows "core_inv (fst (on_tx (tx_step x) st))"
  using assms tx_machine.step_inv [of "txBuffer st" x] tx_frames_step [of good_frame "txBuffer st" x]
  by (auto simp: on_tx_def core_inv_def split: prod.splits)

lemma good_entry_mark:
  assumes "entries good_entry r"
  shows "entries good_entry (mark_sent d i r)"
  unfolding entries_def
proof (intro allI impI)
  fix d' m j info
  assume m: "destToSubsMap (mark_sent d i r) d' = Some m" "(j, info) \<in> set m"
  then obtain m' info' where "destToSubsMap r d' = Some m'" "(j, info') \<in> set m'" "ackMode info = ackMode info'"
    by (auto simp: mark_sent_def split: if_splits)
  with entriesD [OF assms, of d' m' j info'] show "good_entry d' j info"
    by (simp add: good_entry_def auto_mode_def)
qed

lemma publish_core:
  assumes "core_inv st"
  shows "core_inv (fst (publish env f tx st))"
proof -
  let ?st' = "fst (publish env f tx st)"
  have "reg_inv (reg ?st') \<and> entries good_entry (reg ?st')"
    by (rule publish_reg) (use assms in \<open>auto simp: core_inv_def reg_inv_mark_sent good_entry_mark\<close>)
  moreover have "txBuffer ?st' = txBuffer st" using publish_control [of st env f tx] by (simp add: same_control_def)
  ultimately show ?thesis using assms by (simp add: core_inv_def)
qed

lemma getHeader_gm_str: "gm_str (headers f) h = getHeader f h"
  by (simp add: gm_str_def getHeader_def split: option.splits)

lemma validated_getHeader: "Validate s f = Ret () \<Longrightarrow> checkValidEscapes (getHeader f h)"
  by (rule getHeader_valid) (rule Validate_valid_headers)

section \<open>The state machine, command by command\<close>

lemma tx_step_fn:
  "tx_step (TxBegin i) = startTx i" "tx_step (TxAdd i m) = bufferTxMessage i m" "tx_step (TxDrop i) = dropTx i"
  by (simp_all add: fun_eq_iff)

lemma stateMachine_connect:
  "command f = CmdConnect \<or> command f = CmdStomp \<Longrightarrow> stateMachine env sid f st = handleConnect env sid f st"
  by (auto simp: stateMachine_def)

lemma stateMachine_send:
  "command f = CmdSend \<Longrightarrow> stateMachine env sid f st =
     (if getHeader f HdrKeyTransaction \<noteq> ''''
      then on_tx (tx_step (TxAdd (getHeader f HdrKeyTransaction) f)) st else publish env f '''' st)"
  by (simp add: stateMachine_def tx_step_fn Let_def)

lemma stateMachine_subscribe:
  "command f = CmdSubscribe \<Longrightarrow> stateMachine env sid f st =
     on_reg (addSubscription (getHeader f HdrKeyDestination) (getHeader f HdrKeyID)
       (if getHeader f HdrKeyAck = '''' then '''' else HdrValAckAuto) sid) st"
  by (simp add: stateMachine_def)

lemma stateMachine_unsubscribe:
  "command f = CmdUnsubscribe \<Longrightarrow> stateMachine env sid f st = on_reg (removeSubscription (getHeader f HdrKeyID)) st"
  by (simp add: stateMachine_def)

lemma stateMachine_ack:
  "command f = CmdAck \<Longrightarrow> stateMachine env sid f st =
     on_reg (processAck (bitmap_minimum env) (getHeader f HdrKeyID)) st"
  by (simp add: stateMachine_def getHeader_gm_str)

lemma stateMachine_nack: "command f = CmdNack \<Longrightarrow> stateMachine env sid f st = (st, Ret ())"
  by (simp add: stateMachine_def)

lemma stateMachine_tx:
  "command f = CmdBegin \<Longrightarrow> stateMachine env sid f st = on_tx (tx_step (TxBegin (getHeader f HdrKeyTransaction))) st"
  "command f = CmdAbort \<Longrightarrow> stateMachine env sid f st = on_tx (tx_step (TxDrop (getHeader f HdrKeyTransaction))) st"
  "command f = CmdCommit \<Longrightarrow> stateMachine env sid f st =
     foreachTx (getHeader f HdrKeyTransaction) (txBuffer st)
       (\<lambda>frameTx. publish env frameTx (getHeader f HdrKeyTransaction)) st"
  by (simp_all add: stateMachine_def tx_step_fn Let_def)

lemma stateMachine_disconnect:
  "command f = CmdDisconnect \<Longrightarrow> stateMachine env sid f st =
     regardless (on_reg (cleanupSubscriptions (range_order env (uuids st)) (sessionID (session_at st sid))) st) (\<lambda>st.
     regardless (send env sid CmdReceipt [(HdrKeyReceiptID, getHeader f HdrKeyReceipt)] None st) (\<lambda>st.
       (close_conn sid st, Ret ())))"
  by (simp add: stateMachine_def)

lemmas stateMachine_command = stateMachine_connect stateMachine_send stateMachine_subscribe
  stateMachine_unsubscribe stateMachine_ack stateMachine_nack stateMachine_tx stateMachine_disconnect

lemma client_command_cases:
  assumes "Validate ClientFrame f = Ret ()"
  obtains (connect) "command f = CmdConnect \<or> command f = CmdStomp" | (send) "command f = CmdSend"
  | (subscribe) "command f = CmdSubscribe" | (unsubscribe) "command f = CmdUnsubscribe"
  | (ack) "command f = CmdAck" | (nack) "command f = CmdNack" | (begin_tx) "command f = CmdBegin"
  | (commit) "command f = CmdCommit" | (abort) "command f = CmdAbort" | (disconnect) "command f = CmdDisconnect"
  using assms unfolding Validate_client_iff clientCmdSet_def
  by (elim conjE) (simp only: list.set insert_iff empty_iff, blast)

lemma disconnect_core:
  assumes "core_inv st"
  shows "core_inv (fst (regardless (on_reg (cleanupSubscriptions ord s) st) (\<lambda>st.
     regardless (send env sid CmdReceipt h None st) (\<lambda>st. (close_conn sid st, Ret ())))))"
proof (rule regardless_fst)
  show c: "core_inv (fst (on_reg (cleanupSubscriptions ord s) st))"
    using assms by (intro on_reg_core) (auto simp: core_inv_def reg_inv_cleanup entries_cleanup)
  show "core_inv (fst (regardless (send env sid CmdReceipt h None (fst (on_reg (cleanupSubscriptions ord s) st)))
      (\<lambda>st. (close_conn sid st, Ret ()))))"
    using c by (rule core_inv_same [THEN iffD2, rotated])
      (rule same_core_regardless [OF same_core_send], simp)
qed

text \<open>Every command keeps the invariant of the data.\<close>

lemma stateMachine_core:
  assumes st: "core_inv st" and f: "Validate ClientFrame f = Ret ()"
  shows "core_inv (fst (stateMachine env sid f st))"
proof -
  have reg: "reg_inv (reg st)" "entries good_entry (reg st)" using st by (auto simp: core_inv_def)
  from f show ?thesis
  proof (cases rule: client_command_cases)
    case connect
    then show ?thesis using st core_inv_same [OF same_core_connect] by (simp add: stateMachine_connect)
  next
    case send
    with st f show ?thesis
      by (auto simp: stateMachine_send publish_core good_frame_def intro!: on_tx_core simp del: tx_step.simps)
  next
    case subscribe
    then show ?thesis
      using reg validated_getHeader [OF f]
      by (auto simp: stateMachine_subscribe good_entry_def auto_mode_def
          intro!: on_reg_core st reg_inv_add entries_add)
  next
    case unsubscribe
    with st reg show ?thesis
      by (auto simp: stateMachine_unsubscribe intro!: on_reg_core reg_inv_remove entries_remove)
  next
    case ack
    with st reg show ?thesis
      by (auto simp: stateMachine_ack processAck_auto good_entries_auto intro!: on_reg_core)
  next
    case commit
    have "core_inv (fst (foreachTx tx b (\<lambda>frameTx. publish env frameTx tx) st))" for tx b
      by (rule foreachTx_inv [where P = core_inv]) (erule publish_core, rule st)
    with commit show ?thesis by (simp add: stateMachine_tx)
  next
    case disconnect
    with st show ?thesis by (simp add: stateMachine_disconnect disconnect_core)
  qed (use st in \<open>auto simp: stateMachine_tx stateMachine_nack intro!: on_tx_core simp del: tx_step.simps\<close>)
qed

section \<open>The invariant of the process\<close>

definition same_threads :: "broker \<Rightarrow> broker \<Rightarrow> bool" where
  "same_threads st st' \<longleftrightarrow>
     routine st' = routine st \<and> wgSessions st' = wgSessions st \<and> uuids st \<le> uuids st'"

lemma same_threads_refl [simp]: "same_threads st st"
  by (simp add: same_threads_def)

lemma same_threads_trans: "same_threads st st' \<Longrightarrow> same_threads st' st'' \<Longrightarrow> same_threads st st''"
  by (auto simp: same_threads_def)

lemma same_threads_core: "same_core st st' \<Longrightarrow> same_threads st st'"
  by (simp add: same_threads_def same_core_def)

lemma same_threads_publish: "same_threads st (fst (publish env f tx st))"
  using publish_control [of st env f tx] by (simp add: same_threads_def same_control_def)

lemma same_threads_on [simp]: "same_threads st (fst (on_reg g st))" "same_threads st (fst (on_tx h st))"
  by (auto simp: same_threads_def on_reg_def on_tx_def split: prod.splits)

lemma same_threads_commit: "same_threads st (fst (foreachTx tx b (\<lambda>f. publish env f tx) st))"
  by (rule foreachTx_inv [where P = "same_threads st"])
    (erule same_threads_trans, rule same_threads_publish, simp)

lemma same_threads_disconnect:
  "same_threads st (fst (regardless (on_reg g st) (\<lambda>st.
     regardless (send env sid CmdReceipt h None st) (\<lambda>st. (close_conn sid st, Ret ())))))"
proof (rule regardless_fst)
  have "same_core s (fst (regardless (send env sid CmdReceipt h None s) (\<lambda>st. (close_conn sid st, Ret ()))))" for s
    by (rule same_core_regardless [OF same_core_send]) simp
  then show "same_threads st (fst (regardless (send env sid CmdReceipt h None (fst (on_reg g st)))
      (\<lambda>st. (close_conn sid st, Ret ()))))"
    by (rule same_threads_trans [OF same_threads_on(1) same_threads_core])
qed simp

lemma stateMachine_threads: "same_threads st (fst (stateMachine env sid f st))"
  unfolding stateMachine_def Let_def
  by (simp add: same_threads_publish same_threads_commit same_threads_disconnect
      same_threads_core [OF same_core_connect])

text \<open>One frame, from its bytes.\<close>

lemma sendError_core: "same_core st (fst (sendError env sid err p st))"
  unfolding sendError_def by (rule same_core_send)

lemma handle_raw_cases:
  obtains (unparsed) "\<not> is_ret (NewFrameFromBytes raw)" "fst (handle_raw env sid raw st) = st"
      "is_panic (snd (handle_raw env sid raw st))"
  | (invalid) f e where "NewFrameFromBytes raw = Ret f" "Validate ClientFrame f = Fail e"
      "same_core st (fst (handle_raw env sid raw st))" "snd (handle_raw env sid raw st) = Fail e"
  | (valid) f where "NewFrameFromBytes raw = Ret f" "Validate ClientFrame f = Ret ()"
      "handle_raw env sid raw st = stateMachine env sid f st"
proof (cases "NewFrameFromBytes raw")
  case (Ret f)
  show thesis
  proof (cases "Validate ClientFrame f")
    case (Fail e)
    let ?r = "sendError env sid e (''Frame validation error:'' @ Frame_String f) st"
    have "snd ?r = Ret () \<or> (\<exists>e. snd ?r = Fail e)" unfolding sendError_def by (rule send_result)
    with Ret Fail sendError_core [of st env sid e] show thesis
      by (intro invalid [of f e]) (auto simp: handle_raw_def regardless_eq)
  qed (use Ret valid in \<open>simp_all add: handle_raw_def\<close>)
next
  case Block
  then show thesis using deserialize_not_block by (simp add: NewFrameFromBytes_def)
qed (use unparsed in \<open>simp_all add: handle_raw_def\<close>)

lemma handle_raw_core: "core_inv st \<Longrightarrow> core_inv (fst (handle_raw env sid raw st))"
  by (rule handle_raw_cases [of raw env sid st]) (auto simp: core_inv_same stateMachine_core)

lemma handle_raw_threads: "same_threads st (fst (handle_raw env sid raw st))"
  by (rule handle_raw_cases [of raw env sid st]) (auto simp: same_threads_core stateMachine_threads)

text \<open>
  The wait group counts the goroutines that have not returned; the sessions are known by
  the UUIDs drawn so far.
\<close>

definition live_routines :: "broker \<Rightarrow> string set" where
  "live_routines st = {sid. routine st sid = Running \<or> routine st sid = Stuck}"

definition threads_inv :: "env \<Rightarrow> broker \<Rightarrow> bool" where
  "threads_inv env st \<longleftrightarrow>
     {sid. routine st sid \<noteq> NotStarted} \<subseteq> newUUID env ` {..< uuids st} \<and>
     wgSessions st = card (live_routines st)"

definition process_inv :: "env \<Rightarrow> broker \<Rightarrow> bool" where
  "process_inv env st \<longleftrightarrow> core_inv st \<and> threads_inv env st"

lemma live_routines_finite: "threads_inv env st \<Longrightarrow> finite (live_routines st)"
  by (rule finite_subset [of _ "newUUID env ` {..< uuids st}"])
    (auto simp: threads_inv_def live_routines_def)

lemma threads_inv_same:
  assumes "threads_inv env st" and "same_threads st st'"
  shows "threads_inv env st'"
proof -
  have "newUUID env ` {..< uuids st} \<subseteq> newUUID env ` {..< uuids st'}"
    using assms(2) by (auto simp: same_threads_def)
  with assms show ?thesis by (auto simp: threads_inv_def live_routines_def same_threads_def)
qed

lemma threads_inv_stuck:
  "threads_inv env st \<Longrightarrow> routine st sid = Running \<Longrightarrow> threads_inv env (set_routine sid Stuck st)"
proof -
  assume inv: "threads_inv env st" and run: "routine st sid = Running"
  then have "live_routines (set_routine sid Stuck st) = live_routines st"
    by (auto simp: live_routines_def set_routine_def)
  moreover have "{s. routine (set_routine sid Stuck st) s \<noteq> NotStarted} = {s. routine st s \<noteq> NotStarted}"
    using run by (auto simp: set_routine_def)
  ultimately show ?thesis using inv by (simp add: threads_inv_def set_routine_def)
qed

text \<open>A session that ends is counted off, and the wait group never falls below zero.\<close>

lemma cleanup_ended:
  assumes inv: "threads_inv env st" and run: "routine st sid = Running"
  shows "threads_inv env (fst (cleanup sid (set_routine sid Ended st)))"
    and "snd (cleanup sid (set_routine sid Ended st)) = Ret ()"
proof -
  let ?st' = "fst (cleanup sid (set_routine sid Ended st))"
  have "sid \<in> live_routines st" using run by (simp add: live_routines_def)
  with inv live_routines_finite [OF inv] have pos: "wgSessions st > 0"
    by (auto simp: threads_inv_def card_gt_0_iff)
  then show "snd (cleanup sid (set_routine sid Ended st)) = Ret ()"
    by (simp add: cleanup_def Let_def set_routine_def close_conn_def update_session_def split: option.splits)
  have fields: "routine ?st' = (routine st)(sid := Ended)" "uuids ?st' = uuids st"
    "wgSessions ?st' = wgSessions st - 1"
    using pos
    by (simp_all add: cleanup_def Let_def set_routine_def close_conn_def update_session_def
        split: option.splits)
  have "live_routines ?st' = live_routines st - {sid}" by (auto simp: live_routines_def fields)
  then have "wgSessions ?st' = card (live_routines ?st')"
    using inv \<open>sid \<in> live_routines st\<close> by (simp add: fields threads_inv_def card_Diff_singleton)
  moreover have "{s. routine ?st' s \<noteq> NotStarted} = {s. routine st s \<noteq> NotStarted}"
    using run by (auto simp: fields)
  ultimately show "threads_inv env ?st'" using inv by (simp add: threads_inv_def fields(2))
qed

lemma cleanup_core: "core_inv (fst (cleanup sid (set_routine sid g st))) = core_inv st"
  by (simp add: cleanup_def Let_def set_routine_def close_conn_def update_session_def core_inv_def
      split: option.splits)

lemma accept_threads:
  assumes "threads_inv env st" and "inj (newUUID env)"
  shows "threads_inv env (accept env opts st)"
proof -
  let ?sid = "newUUID env (uuids st)"
  have "?sid \<notin> newUUID env ` {..< uuids st}" using assms(2) by (auto dest: injD)
  with assms(1) have new: "routine st ?sid = NotStarted" by (auto simp: threads_inv_def)
  then have "live_routines (accept env opts st) = insert ?sid (live_routines st)" "?sid \<notin> live_routines st"
    by (auto simp: accept_def live_routines_def Let_def)
  with live_routines_finite [OF assms(1)] assms(1) show ?thesis
    by (auto simp: threads_inv_def accept_def Let_def lessThan_Suc)
qed

lemma same_core_tick: "same_core st (fst (regardless (sendRaw env sid b st) (\<lambda>st. (st, Ret ()))))"
  unfolding sendRaw_def
  by (rule same_core_regardless [OF same_core_writes [OF write_session_only]]) simp

lemma broker_step_core: "core_inv st \<Longrightarrow> core_inv (fst (broker_step env opts x st))"
proof (induction env opts x st rule: broker_step.induct)
  case (2 env opts sid raw st)
  obtain st' r where r: "handle_raw env sid raw st = (st', r)" by fastforce
  with handle_raw_core [OF 2, of env sid raw] have st': "core_inv st'" by simp
  then have "core_inv (set_routine sid Stuck st')" by (simp add: core_inv_def set_routine_def)
  with r 2 st' show ?case by (cases r) (simp_all add: cleanup_core)
next
  case (4 env opts j st)
  with core_inv_same [OF same_core_tick] show ?case by (simp split: option.splits)
next
  case (1 env opts st)
  then show ?case by (simp add: accept_def core_inv_def Let_def)
next
  case (5 env opts sid st)
  with core_inv_same [OF same_core_close] show ?case by simp
qed (simp add: cleanup_core)

lemma broker_step_threads:
  "threads_inv env st \<Longrightarrow> inj (newUUID env) \<Longrightarrow> threads_inv env (fst (broker_step env opts x st))"
proof (induction env opts x st rule: broker_step.induct)
  case (2 env opts sid raw st)
  obtain st' r where r: "handle_raw env sid raw st = (st', r)" by fastforce
  then have same: "same_threads st st'" using handle_raw_threads [of st env sid raw] by simp
  show ?case
  proof (cases "routine st sid = Running")
    case True
    with same have run: "routine st' sid = Running" by (simp add: same_threads_def)
    with threads_inv_same [OF 2(1) same] r True show ?thesis
      by (cases r) (simp_all add: cleanup_ended(1) threads_inv_stuck)
  qed (use 2 in simp)
next
  case (4 env opts j st)
  with threads_inv_same [OF 4(1) same_threads_core [OF same_core_tick]] show ?case
    by (simp split: option.splits)
next
  case (5 env opts sid st)
  from threads_inv_same [OF 5(1) same_threads_core [OF same_core_close]] show ?case by simp
qed (simp_all add: cleanup_ended accept_threads)

interpretation process_machine: machine "broker_step env opts" "process_inv env" "\<lambda>_. inj (newUUID env)" for env opts
  by unfold_locales (simp add: process_inv_def broker_step_core broker_step_threads)

lemma process_inv_start: "process_inv env (broker_start empty_registry)"
  by (simp add: process_inv_def core_inv_def threads_inv_def broker_start_def reg_inv_empty
      entries_empty tx_inv_def tx_frames_def live_routines_def)

section \<open>Properties\<close>

text \<open>An environment in which closed connections refuse every write and the others accept it.\<close>

definition demo_env :: env where
  "demo_env =
     \<lparr>newUUID = \<lambda>n. replicate (Suc n) CHR ''u'', releaseVersion = ''v1.0'',
      deliver = \<lambda>c b. if conn_closed c then Some (OtherErr ''use of closed network connection'') else None,
      sched_do = \<lambda>k i tag. (Some k, None), bitmap_minimum = \<lambda>_. Ret 0, unicode_lower = \<lambda>s. s,
      range_order = \<lambda>_ _ _. 0, torn = \<lambda>_ _. ''''\<rparr>"

lemma demo_env_uuids: "inj (newUUID demo_env)"
  by (rule injI) (simp add: demo_env_def)

lemma demo_env_ok: "env_ok demo_env"
  by (simp add: env_ok_def demo_env_def)

definition demo_opts :: BrokerOpts where
  "demo_opts = \<lparr>Transport = TransportTCP, Host = '''', Port = '''', LoginFunc = None,
     HeartbeatSendIntervalMsec = 5000, HeartbeatReceiveIntervalMsec = 5000\<rparr>"

text \<open>
  C4. Whatever connections are accepted, whatever bytes they send, however they end and in
  whatever order, the broker process keeps its invariant: the registry is consistent, only
  validated SEND frames wait in transactions, no transaction has an empty ID, no subscription
  has a client acknowledgement mode, and the wait group counts exactly the session goroutines
  that have not returned.
\<close>

theorem process_invariant:
  assumes "inj (newUUID env)"
  shows "process_inv env (run_ops (broker_step env opts) events (broker_start empty_registry))"
  by (rule process_machine.run_inv [OF process_inv_start assms])

theorem process_invariant_witness:
  "process_inv demo_env (run_ops (broker_step demo_env demo_opts)
     [Accept, Incoming ''u'' (serialize demo_frame), Hangup ''u'', Eof ''u''] (broker_start empty_registry))"
  by (rule process_invariant [OF demo_env_uuids])

text \<open>
  A session that ends is counted off the wait group without ever taking it below zero:
  the end of a running session never panics.
\<close>

theorem session_end_safe:
  assumes "process_inv env st" and "routine st sid = Running"
  shows "snd (broker_step env opts (Eof sid) st) = Ret () \<and>
    routine (fst (broker_step env opts (Eof sid) st)) sid = Ended \<and>
    wgSessions (fst (broker_step env opts (Eof sid) st)) = card (live_routines st - {sid})"
proof -
  let ?st' = "fst (broker_step env opts (Eof sid) st)"
  have inv: "threads_inv env st" using assms(1) by (simp add: process_inv_def)
  have r: "routine ?st' = (routine st)(sid := Ended)"
    using assms(2)
    by (simp add: cleanup_def Let_def set_routine_def close_conn_def update_session_def split: option.splits)
  then have "live_routines ?st' = live_routines st - {sid}" by (auto simp: live_routines_def)
  moreover have "wgSessions ?st' = card (live_routines ?st')"
    using cleanup_ended(1) [OF inv assms(2)] assms(2) by (simp add: threads_inv_def)
  ultimately show ?thesis using cleanup_ended(2) [OF inv assms(2)] assms(2) r by simp
qed

theorem session_end_safe_witness:
  "snd (broker_step demo_env demo_opts (Eof ''u'')
     (fst (broker_step demo_env demo_opts Accept (broker_start empty_registry)))) = Ret ()"
proof -
  let ?st = "fst (broker_step demo_env demo_opts Accept (broker_start empty_registry))"
  have "process_inv demo_env ?st"
    by (rule process_machine.step_inv [OF process_inv_start demo_env_uuids])
  moreover have "routine ?st ''u'' = Running" by (simp add: accept_def broker_start_def demo_env_def Let_def)
  ultimately show ?thesis using session_end_safe by blast
qed

end
