(* ===== verification/Broker_Behaviour.thy ===== *)
theory Broker_Behaviour
  imports Broker_Invariants
begin

text \<open>
  What the broker does with the frames of its sessions, in any state that satisfies the
  invariants: when the process panics, what a publish and a COMMIT deliver and when they
  hang, and the answers to CONNECT.
\<close>

section \<open>Panics\<close>


lemma on_reg_snd [simp]: "snd (on_reg g st) = snd (g (reg st))"
  by (simp add: on_reg_def split: prod.splits)

lemma on_tx_snd [simp]: "snd (on_tx g st) = snd (g (txBuffer st))"
  by (simp add: on_tx_def split: prod.splits)

lemma and_then_no_panic:
  "\<not> is_panic (snd r) \<Longrightarrow> (\<And>x s. \<not> is_panic (snd (k x s))) \<Longrightarrow> \<not> is_panic (snd (and_then r k))"
  by (cases "snd r") (auto simp: and_then_eq)

lemma regardless_no_panic:
  "\<not> is_panic (snd r) \<Longrightarrow> (\<And>s. \<not> is_panic (snd (k s))) \<Longrightarrow> \<not> is_panic (snd (regardless r k))"
  by (cases "snd r") (auto simp: regardless_eq)

lemma send_no_panic: "\<not> is_panic (snd (send env sid cmd h b st))"
  using send_result [of env sid cmd h b st] by auto

lemma negotiate_no_panic: "\<not> is_panic (snd (negotiateHeartbeats env sid v st))"
  using parseHbVal_result [of v]
  by (cases "parseHbVal v")
    (auto simp: negotiateHeartbeats_def schedule_heartbeats_def Let_def split: prod.splits option.splits)

lemma connect_login_no_panic: "\<not> is_panic (snd (connect_login env sid f st))"
  unfolding connect_login_def sendError_def
  by (simp add: regardless_no_panic send_no_panic split: option.splits)

lemma connect_heartbeats_no_panic: "\<not> is_panic (snd (connect_heartbeats env sid f st))"
  using negotiate_no_panic [of env sid "getHeader f HdrKeyHeartBeat" st]
  by (auto simp: connect_heartbeats_def Let_def split: prod.splits outcome.splits)

lemma handleConnect_no_panic: "\<not> is_panic (snd (handleConnect env sid f st))"
  unfolding handleConnect_def Let_def
  by (simp add: and_then_no_panic connect_login_no_panic send_no_panic connect_heartbeats_no_panic)

lemma foreach_frame_no_panic:
  "(\<And>f s. \<not> is_panic (snd (fn f s))) \<Longrightarrow> \<not> is_panic (snd (foreach_frame fn fs s))"
proof (induction fs arbitrary: s)
  case (Cons f fs)
  obtain s' r where "fn f s = (s', r)" by (cases "fn f s")
  with Cons.prems [of f s] Cons.IH [OF Cons.prems, of s'] show ?case by (cases r) simp_all
qed simp

lemma commit_no_panic: "\<not> is_panic (snd (foreachTx tx b (\<lambda>f. publish env f tx) st))"
  by (auto simp: foreachTx_def foreach_frame_no_panic publish_not_panic split: option.splits)

lemma disconnect_panic:
  "is_panic (snd (regardless (on_reg g st) (\<lambda>st. regardless (send env sid cmd h None st) (\<lambda>st. (close_conn sid st, Ret ()))))) \<longleftrightarrow>
     is_panic (snd (g (reg st)))"
proof -
  have "\<not> is_panic (snd (regardless (send env sid cmd h None s) (\<lambda>st. (close_conn sid st, Ret ()))))" for s
    using send_result [of env sid cmd h None s] by (auto simp: regardless_eq)
  then show ?thesis by (simp add: regardless_eq split: outcome.splits)
qed

text \<open>
  The frames that panic the process, given that they parse and are valid; \<open>ord\<close> is the order
  in which the clean-up of a DISCONNECT goes through the IDs of the session.
\<close>

definition panics :: "iteration \<Rightarrow> string \<Rightarrow> Frame \<Rightarrow> registry \<Rightarrow> bool" where
  "panics ord sid f r \<longleftrightarrow>
     command f = CmdUnsubscribe \<and> evicted r (getHeader f HdrKeyID) \<or>
     command f = CmdAck \<and> count_list (getHeader f HdrKeyID) COLON < 2 \<or>
     command f = CmdDisconnect \<and> (\<exists>ms. sessToSubsMap r sid = Some ms \<and> meets_evicted r (slice_of ord ms))"

lemma stateMachine_panic:
  assumes st: "core_inv st" and f: "Validate ClientFrame f = Ret ()"
  shows "is_panic (snd (stateMachine env sid f st)) \<longleftrightarrow>
    panics (range_order env (uuids st)) (sessionID (session_at st sid)) f (reg st)"
proof -
  have reg: "reg_inv (reg st)" "entries auto_mode (reg st)"
    using st good_entries_auto by (auto simp: core_inv_def)
  from f show ?thesis
  proof (cases rule: client_command_cases)
    case connect
    then show ?thesis by (auto simp: stateMachine_connect handleConnect_no_panic panics_def)
  next
    case send
    then show ?thesis
      by (simp add: stateMachine_send publish_not_panic panics_def tx.step_no_panic del: tx_step.simps)
  next
    case subscribe
    then show ?thesis by (simp add: stateMachine_subscribe panics_def addSubscription_def Let_def)
  next
    case unsubscribe
    then show ?thesis
      by (simp add: stateMachine_unsubscribe panics_def evicted_def removeSubscription_panic_iff [OF reg(1)])
  next
    case ack
    then show ?thesis by (simp add: stateMachine_ack panics_def processAck_panic_auto [OF reg(2)])
  next
    case commit
    then show ?thesis by (simp add: stateMachine_tx panics_def commit_no_panic)
  next
    case disconnect
    then show ?thesis
      by (simp add: stateMachine_disconnect panics_def disconnect_panic cleanup_panic_iff [OF reg(1)])
  qed (simp_all add: stateMachine_tx stateMachine_nack panics_def tx.step_no_panic del: tx_step.simps)
qed

lemma handle_raw_panic:
  assumes "core_inv st"
  shows "is_panic (snd (handle_raw env sid raw st)) \<longleftrightarrow>
    (case NewFrameFromBytes raw of
       Ret f \<Rightarrow> Validate ClientFrame f = Ret () \<and>
         panics (range_order env (uuids st)) (sessionID (session_at st sid)) f (reg st)
     | _ \<Rightarrow> True)"
  by (rule handle_raw_cases [of raw env sid st])
    (auto simp: stateMachine_panic [OF assms] split: outcome.splits)

section \<open>Publishing\<close>

lemma subscriber_cases:
  assumes "core_inv st"
  obtains "subs_at (reg st) d = []" | i info where "subs_at (reg st) d = [(i, info)]" "good_entry d i info"
proof -
  from assms have "reg_inv (reg st)" "entries good_entry (reg st)" by (auto simp: core_inv_def)
  with reg_inv_subs_at [of "reg st" d] entries_subs_at [of good_entry "reg st" _ _ d] that show thesis
    by fastforce
qed

lemma broker_message_valid:
  assumes "core_inv st" and "env_ok env" and "subs_at (reg st) dest = [(i, info)]"
    and "valid_headers (headers f)" and "checkValidEscapes tx" and "getHeader f HdrKeyDestination = dest"
  shows "Validate ServerFrame (message_frame env n dest i k tx f) = Ret ()"
proof (rule message_frame_valid [OF assms(2) _ _ assms(5,4)])
  show "checkValidEscapes dest" using getHeader_valid [OF assms(4)] assms(6) by blast
  show "checkValidEscapes i"
    using assms(1,3) entries_subs_at [of good_entry "reg st" i info dest]
    by (simp add: core_inv_def good_entry_def)
qed

text \<open>Publishing a valid frame returns or hangs, and hangs only over a failed delivery.\<close>

lemma publish_outcome:
  assumes "core_inv st" and "env_ok env" and "valid_headers (headers f)" and "checkValidEscapes tx"
    and "getHeader f HdrKeyDestination = dest" "dest \<noteq> ''''"
  shows "snd (publish env f tx st) =
    (case subs_at (reg st) dest of
       [] \<Rightarrow> Ret ()
     | (i, info) # _ \<Rightarrow>
         if deliver env (sess_conn (session_at st (sessionHandler info))) (message_bytes env st dest i info tx f) = None
         then Ret () else Block)"
  using assms(1)
proof (cases rule: subscriber_cases [of _ dest])
  case 1
  with assms(5,6) publish_nobody [of f st env tx] show ?thesis by simp
next
  case (2 i info)
  from publish_one_result [OF assms(5,6) 2(1)
      broker_message_valid [OF assms(1,2) 2(1) assms(3,4,5)]] 2(1)
  show ?thesis by simp
qed

lemma subs_at_mark_sent:
  "subs_at r d = [(i, info)] \<Longrightarrow> subs_at (mark_sent d i r) d =
     [(i, info\<lparr>pendingAckBitmap := insert (nextAckNum info) (pendingAckBitmap info),
               nextAckNum := nextAckNum info + 1\<rparr>)]"
  by (auto simp: subs_at_def mark_sent_def split: option.splits)

lemma publish_delivered:
  assumes inv: "core_inv st" and env: "env_ok env" and f: "valid_headers (headers f)"
    and tx: "checkValidEscapes tx" and dest: "getHeader f HdrKeyDestination = dest" "dest \<noteq> ''''"
    and one: "subs_at (reg st) dest = [(i, info)]" and net: "\<And>c b. deliver env c b = None"
  shows "snd (publish env f tx st) = Ret ()"
    and "sent_to (fst (publish env f tx st)) s = sent_to st s @
      (if s = sessionHandler info then [message_bytes env st dest i info tx f] else [])"
    and "uuids (fst (publish env f tx st)) = Suc (uuids st)"
    and "subs_at (reg (fst (publish env f tx st))) dest =
      [(i, info\<lparr>pendingAckBitmap := insert (nextAckNum info) (pendingAckBitmap info),
                nextAckNum := nextAckNum info + 1\<rparr>)]"
proof -
  note valid = broker_message_valid [OF inv env one f tx dest(1), of "uuids st" "nextAckNum info"]
  show ret: "snd (publish env f tx st) = Ret ()"
    using publish_one_result [OF dest one valid] net by simp
  show "sent_to (fst (publish env f tx st)) s = sent_to st s @
      (if s = sessionHandler info then [message_bytes env st dest i info tx f] else [])"
    using publish_one_sent [OF dest one valid, of s] ret by simp
  have eq: "fst (publish env f tx st) =
      (let st' = fst (write_session env (sessionHandler info) (message_bytes env st dest i info tx f)
          (st\<lparr>uuids := Suc (uuids st)\<rparr>)) in st'\<lparr>reg := mark_sent dest i (reg st')\<rparr>)"
    unfolding publish_one [OF dest one valid]
    using net by (simp add: write_session_def retry_write_def Let_def)
  then show "uuids (fst (publish env f tx st)) = Suc (uuids st)"
    by (simp add: write_session_def update_session_def Let_def split: prod.splits)
  have "reg (fst (publish env f tx st)) = mark_sent dest i (reg st)"
    using eq by (simp add: write_session_def update_session_def Let_def split: prod.splits)
  with subs_at_mark_sent [OF one] show "subs_at (reg (fst (publish env f tx st))) dest =
      [(i, info\<lparr>pendingAckBitmap := insert (nextAckNum info) (pendingAckBitmap info),
                nextAckNum := nextAckNum info + 1\<rparr>)]" by simp
qed

section \<open>COMMIT\<close>

text \<open>
  What the subscriber of a destination receives for the frames of a transaction: one MESSAGE
  for each, in order, with consecutive acknowledgement numbers.
\<close>

fun commit_bytes :: "env \<Rightarrow> nat \<Rightarrow> string \<Rightarrow> string \<Rightarrow> 32 word \<Rightarrow> string \<Rightarrow> Frame list \<Rightarrow> string list" where
  "commit_bytes env u dest i n tx [] = []"
| "commit_bytes env u dest i n tx (f # fs) =
     serialize (message_frame env u dest i n tx f) # commit_bytes env (Suc u) dest i (n + 1) tx fs"

lemma commit_bytes_length [simp]: "length (commit_bytes env u dest i n tx fs) = length fs"
  by (induction fs arbitrary: u n) auto

lemma commit_bytes_nth:
  "k < length fs \<Longrightarrow> commit_bytes env u dest i n tx fs ! k =
     serialize (message_frame env (u + k) dest i (n + of_nat k) tx (fs ! k))"
  by (induction fs arbitrary: u n k) (auto simp: nth_Cons add.assoc split: nat.splits)

lemma commit_delivers:
  assumes env: "env_ok env" and tx: "checkValidEscapes tx" and dest: "dest \<noteq> ''''"
    and net: "\<And>c b. deliver env c b = None"
  shows "core_inv st \<Longrightarrow> subs_at (reg st) dest = [(i, info)] \<Longrightarrow>
    (\<And>f. f \<in> set fs \<Longrightarrow> valid_headers (headers f) \<and> getHeader f HdrKeyDestination = dest) \<Longrightarrow>
    snd (foreach_frame (\<lambda>f. publish env f tx) fs st) = Ret () \<and>
    sent_to (fst (foreach_frame (\<lambda>f. publish env f tx) fs st)) s = sent_to st s @
      (if s = sessionHandler info then commit_bytes env (uuids st) dest i (nextAckNum info) tx fs else [])"
proof (induction fs arbitrary: st info)
  case (Cons f fs)
  have f: "valid_headers (headers f)" "getHeader f HdrKeyDestination = dest" using Cons.prems(3) by auto
  note d = publish_delivered [OF Cons.prems(1) env f(1) tx f(2) dest Cons.prems(2) net]
  obtain st' where st': "publish env f tx st = (st', Ret ())"
    using d(1) by (cases "publish env f tx st") simp
  have inv: "core_inv st'" using publish_core [OF Cons.prems(1), of env f tx] st' by simp
  from Cons.IH [OF inv d(4) [unfolded st' fst_conv]] Cons.prems(3)
  show ?case using d(2) [of s] d(3) st' by (auto simp: message_bytes_def)
qed simp

text \<open>COMMIT leaves the transaction in the buffer.\<close>

lemma commit_keeps_buffer: "txBuffer (fst (foreachTx tx b (\<lambda>f. publish env f tx) st)) = txBuffer st"
  by (rule foreachTx_inv [where P = "\<lambda>s. txBuffer s = txBuffer st"])
    (use publish_control in \<open>auto simp: same_control_def\<close>)

section \<open>A subscriber that went away\<close>

text \<open>The end of a session closes its connection and leaves its subscriptions.\<close>

lemma eof_leaves_subscriptions:
  assumes "threads_inv env st" and "routine st sid = Running"
  shows "reg (fst (broker_step env opts (Eof sid) st)) = reg st"
    and "conn_closed (sess_conn (session_at (fst (broker_step env opts (Eof sid) st)) sid))"
  using assms
  by (simp_all add: cleanup_def Let_def set_routine_def close_conn_def update_session_def split: option.splits)

lemma publish_to_dead:
  assumes "core_inv st" and "env_ok env" and "valid_headers (headers f)" and "checkValidEscapes tx"
    and "getHeader f HdrKeyDestination = dest" "dest \<noteq> ''''"
    and one: "subs_at (reg st) dest = [(i, info)]"
    and closed: "conn_closed (sess_conn (session_at st (sessionHandler info)))"
    and net: "\<And>c b. conn_closed c \<Longrightarrow> deliver env c b \<noteq> None"
  shows "snd (publish env f tx st) = Block"
  unfolding publish_outcome [OF assms(1-6)] one using net [OF closed] by simp

section \<open>CONNECT\<close>

lemma pick_version_eq: "pick_version vs = (if ''1.2'' \<in> set vs then ''1.2'' else '''')"
  by (induction vs) auto

definition accepts_12 :: "Frame \<Rightarrow> bool" where
  "accepts_12 f \<longleftrightarrow> ''1.2'' \<in> set (split_on (CHR '','') (getHeader f HdrKeyAcceptVersion))"

definition login_ok :: "Session \<Rightarrow> Frame \<Rightarrow> bool" where
  "login_ok s f \<longleftrightarrow>
     (case loginFunc s of None \<Rightarrow> True
      | Some lf \<Rightarrow> lf (getHeader f HdrKeyLogin) (getHeader f HdrKeyPassCode) = None)"

lemma connect_login_ok: "login_ok (session_at st sid) f \<Longrightarrow> connect_login env sid f st = (st, Ret ())"
  by (auto simp: connect_login_def login_ok_def split: option.splits)

lemma connect_no_version:
  assumes "login_ok (session_at st sid) f" and "\<not> accepts_12 f"
  shows "fst (handleConnect env sid f st) = st" and "is_fail (snd (handleConnect env sid f st))"
  using assms by (simp_all add: handleConnect_def connect_login_ok pick_version_eq accepts_12_def Let_def)

text \<open>The CONNECTED frame of a session.\<close>

definition connected_frame :: "env \<Rightarrow> Session \<Rightarrow> Frame" where
  "connected_frame env s =
     NewFrame CmdConnected
       [(HdrKeyVersion, ''1.2''), (HdrKeySession, sessionID s),
        (HdrKeyServer, ''go-proto-stomp/'' @ releaseVersion env),
        (HdrKeyHeartBeat, fmt_hb (hbSendIntervalMsec s) (hbRecvIntervalMsec s))] None"

lemma fmt_hb_plain: "BSL \<notin> set (fmt_hb a b)"
  by (auto simp: fmt_hb_def dest: not_in_itoa [THEN notE, rotated 2])

lemma connected_valid:
  assumes "checkValidEscapes (sessionID s)" and "checkValidEscapes (releaseVersion env)"
  shows "Validate ServerFrame (connected_frame env s) = Ret ()"
proof -
  have "checkValidEscapes (''go-proto-stomp/'' @ releaseVersion env)"
    using assms(2) by (subst checkValidEscapes_append) (simp_all add: checkValidEscapes_plain)
  with assms fmt_hb_plain show ?thesis
    by (simp add: Validate_server_iff connected_frame_def conforms_def validationMap_def serverCmdSet_def
        NewFrame_def checkValidEscapes_plain)
qed

text \<open>An accepted CONNECT is answered with CONNECTED and the negotiated intervals.\<close>

lemma connect_accepted:
  assumes login: "login_ok (session_at st sid) f" and version: "accepts_12 f"
    and hb: "connect_heartbeats env sid f st = (st', Ret ())"
    and esc: "checkValidEscapes (sessionID (session_at st' sid))" "checkValidEscapes (releaseVersion env)"
  shows "handleConnect env sid f st =
    write_session env sid (serialize (connected_frame env (session_at st' sid))) st'"
proof -
  note ok = connected_valid [OF esc, unfolded connected_frame_def]
  have "handleConnect env sid f st =
      send env sid CmdConnected (headers (connected_frame env (session_at st' sid))) None st'"
    using version
    by (simp add: handleConnect_def connect_login_ok [OF login] pick_version_eq accepts_12_def hb
        connected_frame_def NewFrame_def del: fmt_hb_def)
  also have "\<dots> = write_session env sid (serialize (connected_frame env (session_at st' sid))) st'"
    using ok by (simp add: send_def connected_frame_def NewFrame_def)
  finally show ?thesis .
qed

text \<open>A refused login is answered with one ERROR frame, and the session ends.\<close>

definition login_error_frame :: "go_error \<Rightarrow> Frame" where
  "login_error_frame err =
     (let payload = ''Authentication failed:'' @ [LF] @ error_text err
      in NewFrame CmdError
           [(HdrKeyContentType, ''text/plain''), (HdrKeyContentLength, itoa (int (length payload))),
            (HdrKeyMessage, ''login failed'')] (Some payload))"

lemma login_error_valid: "Validate ServerFrame (login_error_frame err) = Ret ()"
proof -
  have "checkValidEscapes (itoa n)" for n by (simp add: checkValidEscapes_plain not_in_itoa)
  then show ?thesis
    by (simp add: Validate_server_iff login_error_frame_def conforms_def validationMap_def
        serverCmdSet_def NewFrame_def customHeadersAllowed_def Let_def)
qed

lemma connect_refused:
  assumes "loginFunc (session_at st sid) = Some lf"
    and "lf (getHeader f HdrKeyLogin) (getHeader f HdrKeyPassCode) = Some err"
  shows "handleConnect env sid f st =
    (fst (write_session env sid (serialize (login_error_frame err)) st),
     Fail (errorMsg errBrokerStateMachine (''Login error: '' @ error_text err)))"
proof -
  let ?p = "''Authentication failed:'' @ [LF] @ error_text err"
  have "sendError env sid (OtherErr ''login failed'') ?p st =
      write_session env sid (serialize (login_error_frame err)) st"
    using login_error_valid [of err]
    by (simp only: sendError_def send_def login_error_frame_def Let_def error_text.simps outcome.case)
  then have "connect_login env sid f st =
      regardless (write_session env sid (serialize (login_error_frame err)) st)
        (\<lambda>st. (st, Fail (errorMsg errBrokerStateMachine (''Login error: '' @ error_text err))))"
    using assms by (simp add: connect_login_def)
  then have "connect_login env sid f st =
    (fst (write_session env sid (serialize (login_error_frame err)) st),
     Fail (errorMsg errBrokerStateMachine (''Login error: '' @ error_text err)))"
    by (simp add: regardless_eq write_session_result split: option.splits)
  then show ?thesis by (simp add: handleConnect_def)
qed

text \<open>An error that quotes an invalid escape sequence cannot be sent.\<close>

lemma sendError_invalid:
  assumes "\<not> checkValidEscapes (error_text err)"
  shows "fst (sendError env sid err p st) = st" and "is_fail (snd (sendError env sid err p st))"
proof -
  have "Validate ServerFrame (NewFrame CmdError
       [(HdrKeyContentType, ''text/plain''), (HdrKeyContentLength, itoa (int (length p))),
        (HdrKeyMessage, error_text err)] (Some p)) \<noteq> Ret ()"
    using assms by (auto dest: Validate_escapes [of _ _ HdrKeyMessage "error_text err"] simp: NewFrame_def)
  then show "fst (sendError env sid err p st) = st" and "is_fail (snd (sendError env sid err p st))"
    unfolding sendError_def
    by (cases rule: send_cases [of CmdError "[(HdrKeyContentType, ''text/plain''),
      (HdrKeyContentLength, itoa (int (length p))), (HdrKeyMessage, error_text err)]" "Some p" env sid st],
      simp_all)+
qed

lemma not_valid_stop:
  "\<not> checkValidEscapes s \<Longrightarrow> c \<notin> {CHR ''n'', CHR ''r'', CHR ''c'', BSL} \<Longrightarrow> \<not> checkValidEscapes (s @ c # t)"
  by (induction s rule: checkValidEscapes.induct) (auto split: if_splits list.splits)

lemma quoted_invalid:
  assumes "\<not> checkValidEscapes h \<or> \<not> checkValidEscapes v"
  shows "\<not> checkValidEscapes (sq (h @ '':'' @ v) @ t)"
proof (cases "checkValidEscapes h")
  case True
  with assms not_valid_stop [of v "CHR 0x27" t]
  show ?thesis by (simp add: sq_def checkValidEscapes_append)
next
  case False
  from not_valid_stop [OF this, of COLON "v @ CHR 0x27 # t"] show ?thesis by (simp add: sq_def)
qed

lemma check_headers_escape_error:
  assumes "\<And>h v. (h, v) \<in> set hs \<Longrightarrow> h \<in> set (required t) \<or> h \<in> set (optional t) \<or> customHeadersAllowed f"
    and "\<not> valid_headers hs"
  shows "\<exists>h v. (\<not> checkValidEscapes h \<or> \<not> checkValidEscapes v) \<and>
    check_headers t f hs = Fail (StompErr errProtocolFrame
      (''Invalid escape sequence in header '' @ sq (h @ '':'' @ v) @ '' for command '' @ sq (command f)))"
  using assms
proof (induction hs)
  case (Cons x hs)
  obtain h v where x: "x = (h, v)" by (cases x)
  show ?case
  proof (cases "checkValidEscapes h \<and> checkValidEscapes v")
    case True
    with Cons x show ?thesis by (auto simp: valid_headers_def)
  next
    case False
    with Cons.prems(1) [of h v] x show ?thesis
      by (intro exI [of _ h] exI [of _ v]) (auto simp: errorMsg_def)
  qed
qed (simp add: valid_headers_def)

lemma Validate_escape_error:
  assumes cmd: "command f \<in> set clientCmdSet" and row: "gm_get validationMap (command f) = Some t"
    and allowed: "\<And>h v. (h, v) \<in> set (headers f) \<Longrightarrow>
      h \<in> set (required t) \<or> h \<in> set (optional t) \<or> customHeadersAllowed f"
    and bad: "\<not> valid_headers (headers f)"
  shows "\<exists>e. Validate ClientFrame f = Fail e \<and> \<not> checkValidEscapes (error_text e)"
proof -
  obtain h v where hv: "\<not> checkValidEscapes h \<or> \<not> checkValidEscapes v" and
    err: "Validate ClientFrame f = Fail (StompErr errProtocolFrame (''Invalid escape sequence in header '' @
      sq (h @ '':'' @ v) @ '' for command '' @ sq (command f)))"
    using check_headers_escape_error [OF allowed bad] cmd row
    by (force simp: Validate_def validateClientCommand_def validateHeaders_def)
  have plain: "checkValidEscapes (''stomp: '' @ errorType_text errProtocolFrame @ '': '' @
      ''Invalid escape sequence in header '')"
    by code_simp
  have "error_text (StompErr errProtocolFrame (''Invalid escape sequence in header '' @
      sq (h @ '':'' @ v) @ '' for command '' @ sq (command f))) =
    (''stomp: '' @ errorType_text errProtocolFrame @ '': '' @ ''Invalid escape sequence in header '') @
      sq (h @ '':'' @ v) @ '' for command '' @ sq (command f)"
    by (simp only: error_text.simps append.assoc)
  with err quoted_invalid [OF hv] checkValidEscapes_append [OF plain] show ?thesis by fastforce
qed

lemma bad_escape_silent:
  assumes raw: "NewFrameFromBytes raw = Ret f" and cmd: "command f \<in> set clientCmdSet"
    and row: "gm_get validationMap (command f) = Some t"
    and allowed: "\<And>h v. (h, v) \<in> set (headers f) \<Longrightarrow>
      h \<in> set (required t) \<or> h \<in> set (optional t) \<or> customHeadersAllowed f"
    and bad: "\<not> valid_headers (headers f)"
  shows "fst (handle_raw env sid raw st) = st" and "is_fail (snd (handle_raw env sid raw st))"
proof -
  obtain e where e: "Validate ClientFrame f = Fail e" "\<not> checkValidEscapes (error_text e)"
    using Validate_escape_error [OF cmd row _ bad] allowed by blast
  obtain e' where "sendError env sid e (''Frame validation error:'' @ Frame_String f) st = (st, Fail e')"
    using sendError_invalid [OF e(2)] by (metis is_fail_iff prod.collapse)
  then show "fst (handle_raw env sid raw st) = st" and "is_fail (snd (handle_raw env sid raw st))"
    using raw e(1) by (simp_all add: handle_raw_def)
qed

section \<open>Properties\<close>

text \<open>A broker whose session \<open>u\<close> subscribes to one destination, and a SEND frame to it.\<close>

definition demo_registry :: registry where
  "demo_registry = fst (addSubscription ''/q'' ''s1'' '''' ''u'' empty_registry)"

definition demo_broker :: broker where
  "demo_broker = (broker_start demo_registry)\<lparr>routine := \<lambda>s. if s = ''u'' \<or> s = ''uu'' then Running else NotStarted,
     wgSessions := 2, uuids := 2\<rparr>"

definition demo_info :: subsInfo where
  "demo_info = \<lparr>sessionHandler = ''u'', ackMode = '''', nextAckNum = 0, pendingAckBitmap = {}\<rparr>"

definition q_frame :: Frame where
  "q_frame = NewFrame CmdSend [(HdrKeyDestination, ''/q'')] (Some ''hi'')"

lemma demo_subs: "subs_at (reg demo_broker) ''/q'' = [(''s1'', demo_info)]"
  by (simp add: demo_broker_def broker_start_def demo_registry_def addSubscription_def demo_info_def
      empty_registry_def subs_at_def)

lemma demo_core: "core_inv demo_broker"
  using reg_inv_add [OF reg_inv_empty, of "''/q''" "''s1''" "''''" "''u''"]
    entries_add [OF entries_empty, of good_entry "''/q''" "''s1''" "''u''" "''''"]
  by (simp add: core_inv_def demo_broker_def broker_start_def demo_registry_def tx_inv_def tx_frames_def
      good_entry_def auto_mode_def)

lemma demo_process: "process_inv demo_env demo_broker"
proof -
  have u: "newUUID demo_env ` {..< 2} = {''uu'', ''u''}"
    by (simp add: demo_env_def lessThan_Suc numeral_2_eq_2)
  have "live_routines demo_broker = {''u'', ''uu''}"
    by (auto simp: live_routines_def demo_broker_def broker_start_def)
  then have "threads_inv demo_env demo_broker"
    by (auto simp: threads_inv_def demo_broker_def broker_start_def u)
  with demo_core show ?thesis by (simp add: process_inv_def)
qed

lemma demo_deliver: "deliver demo_env c b = None \<longleftrightarrow> \<not> conn_closed c"
  by (simp add: demo_env_def)

lemma demo_env_version: "releaseVersion demo_env = ''v1.0''"
  by (simp add: demo_env_def)

lemma demo_session: "session_at demo_broker = (\<lambda>_. NewSession [] new_conn None 0 0)"
  by (simp add: demo_broker_def broker_start_def)

lemma demo_open: "\<not> conn_closed (sess_conn (session_at demo_broker s))"
  by (simp add: demo_broker_def broker_start_def NewSession_def new_conn_def)

lemma q_frame_ok: "Validate ClientFrame q_frame = Ret ()" "valid_headers (headers q_frame)"
  "getHeader q_frame HdrKeyDestination = ''/q''" "NewFrameFromBytes (serialize q_frame) = Ret q_frame"
  by code_simp+

text \<open>
  C3. In any reachable state the bytes of one frame end the whole broker process in exactly these
  cases: they do not parse, or they are an UNSUBSCRIBE of an evicted subscription (another one has
  its destination), an ACK whose \<open>id\<close> has fewer than two colons, or a DISCONNECT whose clean-up
  meets an evicted subscription: in the order of \<open>ToSlice\<close>, every ID of the session before it
  is current, so that it can be removed, and none of them is the one that displaced it. A
  DISCONNECT whose clean-up first removes the displacing ID ends without a panic. Every
  other frame is handled or refused without a panic.
\<close>

theorem frame_panics_iff:
  assumes "core_inv st"
  shows "is_panic (snd (handle_raw env sid raw st)) \<longleftrightarrow>
    (case NewFrameFromBytes raw of
       Ret f \<Rightarrow> Validate ClientFrame f = Ret () \<and>
         panics (range_order env (uuids st)) (sessionID (session_at st sid)) f (reg st)
     | _ \<Rightarrow> True)"
  by (rule handle_raw_panic [OF assms])

text \<open>
  A session that subscribes twice to one destination, and its DISCONNECT: it depends on the
  order of the clean-up whether the process survives it.
\<close>

definition twice_registry :: registry where
  "twice_registry = fst (addSubscription ''/q'' ''s2'' '''' ''u'' (fst (addSubscription ''/q'' ''s1'' '''' ''u'' empty_registry)))"

definition twice_broker :: broker where
  "twice_broker = update_session ''u'' (\<lambda>s. s\<lparr>sessionID := ''u''\<rparr>) (demo_broker\<lparr>reg := twice_registry\<rparr>)"

definition s1_first :: env where
  "s1_first = demo_env\<lparr>range_order := \<lambda>_ _ i. if i = ''s1'' then 0 else 1\<rparr>"

definition disconnect_frame :: Frame where
  "disconnect_frame = NewFrame CmdDisconnect [(HdrKeyReceipt, ''r'')] None"

lemma twice_registry_eq:
  "subsToDestMap twice_registry = [''s1'' \<mapsto> ''/q'', ''s2'' \<mapsto> ''/q'']"
  "destToSubsMap twice_registry = [''/q'' \<mapsto> [(''s2'', demo_info)]]"
  "sessToSubsMap twice_registry = [''u'' \<mapsto> [''s2'', ''s1'']]"
  by (simp_all add: twice_registry_def addSubscription_def empty_registry_def subs_at_def demo_info_def)

lemma twice_core: "core_inv twice_broker"
proof -
  have "reg_inv twice_registry" unfolding twice_registry_def by (intro reg_inv_add reg_inv_empty)
  moreover have "entries good_entry twice_registry"
    unfolding twice_registry_def by (intro entries_add entries_empty) (simp_all add: good_entry_def auto_mode_def)
  ultimately show ?thesis using demo_core by (simp add: twice_broker_def core_inv_def update_session_def)
qed

lemma twice_evicted: "evicted twice_registry i \<longleftrightarrow> i = ''s1''"
  by (auto simp: evicted_def twice_registry_eq)

theorem frame_panics_iff_witness:
  "is_panic (snd (handle_raw demo_env ''uu'' ''SEND'' demo_broker)) \<and>
   is_panic (snd (handle_raw s1_first ''u'' (serialize disconnect_frame) twice_broker)) \<and>
   \<not> is_panic (snd (handle_raw demo_env ''u'' (serialize disconnect_frame) twice_broker))"
proof -
  have bad: "NewFrameFromBytes ''SEND'' = Fail (errorMsg errByteFormat ''Message frame must end with NUL byte'')"
    by code_simp
  have parse: "NewFrameFromBytes (serialize disconnect_frame) = Ret disconnect_frame"
    "Validate ClientFrame disconnect_frame = Ret ()" "command disconnect_frame = CmdDisconnect" by code_simp+
  have slices: "slice_of (range_order s1_first n) [''s2'', ''s1''] = [''s1'', ''s2'']"
    "slice_of (range_order demo_env n) [''s2'', ''s1''] = [''s2'', ''s1'']" for n
    by (simp_all add: slice_of_def s1_first_def demo_env_def)
  have "meets_evicted twice_registry [''s1'', ''s2'']" "\<not> meets_evicted twice_registry [''s2'', ''s1'']"
    by (auto simp: meets_evicted_Cons twice_evicted Cons_eq_append_conv twice_registry_eq)
  then have "panics (range_order s1_first (uuids twice_broker)) (sessionID (session_at twice_broker ''u''))
      disconnect_frame (reg twice_broker)"
    "\<not> panics (range_order demo_env (uuids twice_broker)) (sessionID (session_at twice_broker ''u''))
      disconnect_frame (reg twice_broker)"
    using parse(3) by (simp_all add: panics_def twice_broker_def update_session_def twice_registry_eq slices)
  then show ?thesis
    using frame_panics_iff [OF demo_core, of demo_env "''uu''" "''SEND''"]
      frame_panics_iff [OF twice_core, of _ "''u''" "serialize disconnect_frame"]
    by (simp add: bad parse)
qed

text \<open>
  C10. Publishing a valid message always ends in one of two ways: it returns, when nobody
  subscribes to the destination or the MESSAGE was delivered to its subscriber, or it hangs
  forever, when the delivery failed (the failing send never tells the wait group).
\<close>

theorem publish_returns_or_hangs:
  assumes "core_inv st" and "env_ok env" and "valid_headers (headers f)" and "checkValidEscapes tx"
    and "getHeader f HdrKeyDestination = dest" "dest \<noteq> ''''"
  shows "snd (publish env f tx st) =
    (case subs_at (reg st) dest of
       [] \<Rightarrow> Ret ()
     | (i, info) # _ \<Rightarrow>
         if deliver env (sess_conn (session_at st (sessionHandler info))) (message_bytes env st dest i info tx f) = None
         then Ret () else Block)"
  by (rule publish_outcome [OF assms])

theorem publish_returns_or_hangs_witness: "snd (publish demo_env q_frame '''' demo_broker) = Ret ()"
  using publish_returns_or_hangs [OF demo_core demo_env_ok q_frame_ok(2) _ q_frame_ok(3), of "''''"]
  by (simp add: demo_subs demo_deliver demo_open)

text \<open>
  C23. A subscriber that goes away without DISCONNECT stops its publishers: its subscriptions stay in
  the registry, so the next valid SEND to its destination from any other running session
  leaves the goroutine of that session blocked forever, when closed connections refuse
  writes.
\<close>

theorem dead_subscriber_blocks_publisher:
  assumes inv: "process_inv env st" and env: "env_ok env"
    and sub: "subs_at (reg st) dest = [(i, info)]" "routine st (sessionHandler info) = Running"
    and pub: "routine st sid = Running" "sid \<noteq> sessionHandler info"
    and raw: "NewFrameFromBytes raw = Ret f" "Validate ClientFrame f = Ret ()" "command f = CmdSend"
      "getHeader f HdrKeyTransaction = ''''" "getHeader f HdrKeyDestination = dest" "dest \<noteq> ''''"
    and net: "\<And>c b. conn_closed c \<Longrightarrow> deliver env c b \<noteq> None"
    and st1: "st1 = fst (broker_step env opts (Eof (sessionHandler info)) st)"
  shows "routine (fst (broker_step env opts (Incoming sid raw) st1)) sid = Stuck"
proof -
  have threads: "threads_inv env st" using inv by (simp add: process_inv_def)
  note eof = eof_leaves_subscriptions [OF threads sub(2), of opts, folded st1]
  have core: "core_inv st1" unfolding st1 by (rule broker_step_core) (use inv in \<open>simp add: process_inv_def\<close>)
  have run: "routine st1 sid = Running"
    using sub(2) pub
    by (simp add: st1 cleanup_def Let_def set_routine_def close_conn_def update_session_def split: option.splits)
  have "snd (publish env f '''' st1) = Block"
    by (rule publish_to_dead [OF core env Validate_valid_headers [OF raw(2)] _ raw(5,6) _ eof(2) net])
      (use sub(1) eof(1) in simp_all)
  then have "snd (handle_raw env sid raw st1) = Block"
    using raw by (simp add: handle_raw_def stateMachine_send)
  then show ?thesis using run by (cases "handle_raw env sid raw st1") (simp add: set_routine_def)
qed

theorem dead_subscriber_blocks_publisher_witness:
  "routine (fst (broker_step demo_env demo_opts (Incoming ''uu'' (serialize q_frame))
     (fst (broker_step demo_env demo_opts (Eof ''u'') demo_broker)))) ''uu'' = Stuck"
  using dead_subscriber_blocks_publisher [OF demo_process demo_env_ok demo_subs _ _ _ q_frame_ok(4,1) _ _ q_frame_ok(3),
      of "''uu''"]
  by (simp add: demo_info_def demo_broker_def demo_deliver q_frame_def NewFrame_def getHeader_def)

text \<open>
  C8. COMMIT sends the messages of the transaction to the subscriber of their destination, one
  MESSAGE for each SEND, in the order they were buffered and with consecutive acknowledgement
  numbers, and to nobody else. It leaves the transaction in the buffer, so that a second
  COMMIT of it sends everything again.
\<close>

theorem commit_in_order:
  assumes "core_inv st" and "env_ok env" and f: "Validate ClientFrame f = Ret ()" "command f = CmdCommit"
    and tx: "getHeader f HdrKeyTransaction = tx" "txBuffer st tx = Some q"
    and dest: "dest \<noteq> ''''" "\<And>g. g \<in> set q \<Longrightarrow> getHeader g HdrKeyDestination = dest"
    and one: "subs_at (reg st) dest = [(i, info)]" and net: "\<And>c b. deliver env c b = None"
  shows "snd (stateMachine env sid f st) = Ret () \<and>
    sent_to (fst (stateMachine env sid f st)) s = sent_to st s @
      (if s = sessionHandler info then commit_bytes env (uuids st) dest i (nextAckNum info) tx q else []) \<and>
    txBuffer (fst (stateMachine env sid f st)) tx = Some q"
proof -
  have "tx \<noteq> ''''" using assms(1) tx by (auto simp: core_inv_def tx_inv_def)
  then have eq: "stateMachine env sid f st = foreach_frame (\<lambda>g. publish env g tx) q st"
    using f(2) tx by (simp add: stateMachine_tx foreachTx_def)
  have valid: "valid_headers (headers g) \<and> getHeader g HdrKeyDestination = dest" if "g \<in> set q" for g
  proof -
    have "list_all good_frame q" using assms(1) tx(2) by (simp add: core_inv_def tx_frames_def)
    with that have "Validate ClientFrame g = Ret ()" by (simp add: list_all_iff good_frame_def)
    with Validate_valid_headers dest(2) [OF that] show ?thesis by blast
  qed
  have "checkValidEscapes tx" using validated_getHeader [OF f(1)] tx(1) by blast
  from commit_delivers [where fs = q and s = s, OF assms(2) this dest(1) net assms(1) one valid]
  have "snd (foreach_frame (\<lambda>g. publish env g tx) q st) = Ret () \<and>
    sent_to (fst (foreach_frame (\<lambda>g. publish env g tx) q st)) s = sent_to st s @
      (if s = sessionHandler info then commit_bytes env (uuids st) dest i (nextAckNum info) tx q else [])" .
  moreover have "txBuffer (fst (stateMachine env sid f st)) = txBuffer st"
    using f(2) by (simp add: stateMachine_tx commit_keeps_buffer)
  ultimately show ?thesis using tx(2) by (simp add: eq)
qed

definition commit_frame :: Frame where
  "commit_frame = NewFrame CmdCommit [(HdrKeyTransaction, ''t'')] None"

theorem commit_in_order_witness:
  "sent_to (fst (stateMachine (demo_env\<lparr>deliver := \<lambda>_ _. None\<rparr>) ''uu'' commit_frame
       (demo_broker\<lparr>txBuffer := [''t'' \<mapsto> [q_frame, q_frame\<lparr>body := None\<rparr>]]\<rparr>))) ''u'' =
     commit_bytes (demo_env\<lparr>deliver := \<lambda>_ _. None\<rparr>) 2 ''/q'' ''s1'' 0 ''t'' [q_frame, q_frame\<lparr>body := None\<rparr>]"
proof -
  let ?st = "demo_broker\<lparr>txBuffer := [''t'' \<mapsto> [q_frame, q_frame\<lparr>body := None\<rparr>]]\<rparr>"
  let ?env = "demo_env\<lparr>deliver := \<lambda>_ _. None\<rparr>"
  have "good_frame q_frame" "good_frame (q_frame\<lparr>body := None\<rparr>)" by code_simp+
  with demo_core have "core_inv ?st" by (simp add: core_inv_def tx_inv_def tx_frames_def)
  moreover have "env_ok ?env" using demo_env_ok by (simp add: env_ok_def)
  moreover have "Validate ClientFrame commit_frame = Ret ()" "getHeader commit_frame HdrKeyTransaction = ''t''"
    "command commit_frame = CmdCommit" by code_simp+
  moreover have "getHeader g HdrKeyDestination = ''/q''" if "g \<in> set [q_frame, q_frame\<lparr>body := None\<rparr>]" for g
    using that q_frame_ok(3) by (auto simp: getHeader_def)
  ultimately show ?thesis
    using commit_in_order [of ?st ?env commit_frame "''t''" "[q_frame, q_frame\<lparr>body := None\<rparr>]" "''/q''" "''s1''"
        demo_info "''uu''" "''u''"] demo_subs
    by (simp add: demo_info_def sent_to_def demo_broker_def broker_start_def NewSession_def new_conn_def)
qed

lemma heartbeats_sent: "sent_to (fst (connect_heartbeats env sid f st)) s = sent_to st s"
proof -
  have us: "sent_to (update_session sid g st') s = sent_to st' s" if "\<And>x. sess_conn (g x) = sess_conn x" for g st'
    using that by (simp add: sent_to_def update_session_def)
  have "sent_to (fst (schedule_heartbeats env sid st')) s = sent_to st' s" for st'
    by (simp add: schedule_heartbeats_def Let_def sent_to_def update_session_def split: prod.splits option.splits)
  then have "sent_to (fst (negotiateHeartbeats env sid v st)) s = sent_to st s" for v
    by (auto simp: negotiateHeartbeats_def Let_def us split: outcome.splits)
  then show ?thesis
    by (auto simp: connect_heartbeats_def Let_def split: prod.splits outcome.splits) (metis fst_conv)+
qed

text \<open>
  C12. A CONNECT with an accepted login and version 1.2 among its versions is answered with one
  CONNECTED frame on the connection of the session and on no other; it names the session and
  the intervals that the session then uses, and those are the broker's own, negotiated
  with the client's offer when the client made one.
\<close>

theorem connect_answer:
  assumes "login_ok (session_at st sid) f" and "accepts_12 f"
    and hb: "connect_heartbeats env sid f st = (st', Ret ())"
    and "checkValidEscapes (sessionID (session_at st' sid))" "checkValidEscapes (releaseVersion env)"
    and net: "deliver env (sess_conn (session_at st' sid)) (serialize (connected_frame env (session_at st' sid))) = None"
  shows "snd (handleConnect env sid f st) = Ret () \<and>
    sent_to (fst (handleConnect env sid f st)) s =
      sent_to st s @ (if s = sid then [serialize (connected_frame env (session_at st' sid))] else []) \<and>
    (hb_send sid st', hb_recv sid st') =
      (if getHeader f HdrKeyHeartBeat = '''' then (hb_send sid st, hb_recv sid st)
       else case parseHbVal (getHeader f HdrKeyHeartBeat) of
              Ret (a, b) \<Rightarrow> (negotiated (hb_send sid st) b, negotiated (hb_recv sid st) a)
            | _ \<Rightarrow> (hb_send sid st', hb_recv sid st'))"
proof -
  note eq = connect_accepted [OF assms(1,2) hb assms(4,5)]
  have "sent_to st' s = sent_to st s" using heartbeats_sent [of env sid f st s] hb by simp
  then have sent: "snd (handleConnect env sid f st) = Ret ()"
    "sent_to (fst (handleConnect env sid f st)) s =
      sent_to st s @ (if s = sid then [serialize (connected_frame env (session_at st' sid))] else [])"
    using net by (simp_all add: eq write_session_result write_session_sent)
  show ?thesis
  proof (cases "getHeader f HdrKeyHeartBeat = ''''")
    case True
    with hb sent show ?thesis by (simp add: connect_heartbeats_def)
  next
    case False
    with hb have "fst (negotiateHeartbeats env sid (getHeader f HdrKeyHeartBeat) st) = st'"
      by (auto simp: connect_heartbeats_def Let_def split: prod.splits outcome.splits)
    then have "hb_send sid st' = negotiated (hb_send sid st) b \<and> hb_recv sid st' = negotiated (hb_recv sid st) a"
      if "parseHbVal (getHeader f HdrKeyHeartBeat) = Ret (a, b)" for a b
      using broker_hb.negotiate_ret [OF that] by blast
    with False sent show ?thesis by (auto split: outcome.splits prod.splits)
  qed
qed

definition connect_frame :: Frame where
  "connect_frame = NewFrame CmdConnect
     [(HdrKeyAcceptVersion, ''1.0,1.2''), (HdrKeyHost, ''h''), (HdrKeyHeartBeat, ''0,70'')] None"

theorem connect_answer_witness:
  "snd (handleConnect demo_env ''u'' connect_frame demo_broker) = Ret ()"
proof -
  have login: "login_ok (session_at demo_broker ''u'') connect_frame"
    by (simp add: login_ok_def demo_session NewSession_def)
  have ver: "accepts_12 connect_frame" by code_simp
  have hdr: "getHeader connect_frame HdrKeyHeartBeat = ''0,70''" and fmt: "''0,70'' = fmt_hb 0 70"
    by code_simp+
  have parse: "parseHbVal ''0,70'' = Ret (0, 70)"
    unfolding fmt by (rule parseHbVal_fmt_hb) (simp_all add: int64_def)
  obtain st' where st': "negotiateHeartbeats demo_env ''u'' ''0,70'' demo_broker = (st', Ret ())"
    and same: "session_at st' ''u'' = NewSession '''' new_conn None 0 0"
    unfolding negotiateHeartbeats_def parse
    by (simp add: Let_def update_session_def demo_session NewSession_def)
  then have hb: "connect_heartbeats demo_env ''u'' connect_frame demo_broker = (st', Ret ())"
    by (simp add: connect_heartbeats_def hdr)
  show ?thesis
    using connect_answer [OF login ver hb]
    by (simp add: demo_deliver same NewSession_def new_conn_def demo_env_version checkValidEscapes_plain)
qed

text \<open>
  A CONNECT whose login the login function refuses ends the session: exactly one ERROR frame
  goes out on its connection when that can be written, nothing else changes, and the state
  machine fails whatever version the client offers.
\<close>

theorem connect_login_refused:
  assumes "loginFunc (session_at st sid) = Some lf"
    and "lf (getHeader f HdrKeyLogin) (getHeader f HdrKeyPassCode) = Some err"
    and "command f = CmdConnect \<or> command f = CmdStomp"
  shows "stateMachine env sid f st =
    (fst (write_session env sid (serialize (login_error_frame err)) st),
     Fail (errorMsg errBrokerStateMachine (''Login error: '' @ error_text err)))"
  using connect_refused [OF assms(1,2)] assms(3) by (simp add: stateMachine_connect)

theorem connect_login_refused_witness:
  "snd (stateMachine demo_env ''u'' connect_frame
      (update_session ''u'' (\<lambda>s. s\<lparr>loginFunc := Some (\<lambda>_ _. Some (OtherErr ''no''))\<rparr>) demo_broker)) =
     Fail (errorMsg errBrokerStateMachine ''Login error: no'')"
proof -
  let ?st = "update_session ''u'' (\<lambda>s. s\<lparr>loginFunc := Some (\<lambda>_ _. Some (OtherErr ''no''))\<rparr>) demo_broker"
  have "loginFunc (session_at ?st ''u'') = Some (\<lambda>_ _. Some (OtherErr ''no''))" by (simp add: update_session_def)
  moreover have "command connect_frame = CmdConnect \<or> command connect_frame = CmdStomp"
    by (simp add: connect_frame_def NewFrame_def)
  ultimately show ?thesis
    using connect_login_refused [of ?st "''u''" "\<lambda>_ _. Some (OtherErr ''no'')" connect_frame "OtherErr ''no''" demo_env]
    by simp
qed

text \<open>
  C34. An ACK never changes the broker: SUBSCRIBE stores the mode \<open>auto\<close> when the client asks for an
  acknowledgement mode and no mode when it does not, so no subscription is ever in a mode
  whose acknowledgements count.
\<close>

theorem ack_ineffective:
  assumes "core_inv st" and "command f = CmdAck"
  shows "fst (stateMachine env sid f st) = st"
proof -
  have "entries auto_mode (reg st)" using assms(1) good_entries_auto by (simp add: core_inv_def)
  from processAck_auto [OF this] assms(2) show ?thesis
    by (simp add: stateMachine_ack on_reg_def split: prod.splits) (metis fst_conv broker.surjective broker.update_convs(4))
qed

theorem ack_ineffective_witness:
  "fst (stateMachine demo_env ''u'' (NewFrame CmdAck [(HdrKeyID, ''/q:s1:0'')] None) demo_broker) = demo_broker"
  by (rule ack_ineffective [OF demo_core]) (simp add: NewFrame_def)

text \<open>
  SUBSCRIBE needs no login: in any session, whether or not it has sent a CONNECT and whatever
  its login function says, a valid SUBSCRIBE with an ID and a destination makes the session
  the only subscriber of the destination.
\<close>

theorem subscribe_needs_no_login:
  assumes "core_inv st" and "command f = CmdSubscribe"
    and "getHeader f HdrKeyID = i" "i \<noteq> ''''" "getHeader f HdrKeyDestination = dest" "dest \<noteq> ''''"
  shows "snd (stateMachine env sid f st) = Ret () \<and>
    abs_registry (reg (fst (stateMachine env sid f st))) = spec_add dest i sid (abs_registry (reg st)) \<and>
    sent_to (fst (stateMachine env sid f st)) = sent_to st"
proof -
  have inv: "reg_inv (reg st)" using assms(1) by (simp add: core_inv_def)
  let ?m = "if getHeader f HdrKeyAck = '''' then '''' else HdrValAckAuto"
  have "reg (fst (stateMachine env sid f st)) = fst (addSubscription dest i ?m sid (reg st))"
    "sent_to (fst (stateMachine env sid f st)) = sent_to st"
    "snd (stateMachine env sid f st) = snd (addSubscription dest i ?m sid (reg st))"
    using assms(2,3,5)
    by (auto simp: stateMachine_subscribe on_reg_def sent_to_def fun_eq_iff split: prod.splits)
  with abs_add [OF assms(4,6) inv] addSubscription_ok(1) [OF assms(4,6) inv] show ?thesis by simp
qed

definition subscribe_frame :: Frame where
  "subscribe_frame = NewFrame CmdSubscribe [(HdrKeyDestination, ''/q''), (HdrKeyID, ''s2'')] None"

theorem subscribe_needs_no_login_witness:
  "abs_registry (reg (fst (stateMachine demo_env ''uu'' subscribe_frame
      (update_session ''uu'' (\<lambda>s. s\<lparr>loginFunc := Some (\<lambda>_ _. Some (OtherErr ''no''))\<rparr>) demo_broker)))) =
    spec_add ''/q'' ''s2'' ''uu'' (abs_registry (reg demo_broker))"
proof -
  let ?st = "update_session ''uu'' (\<lambda>s. s\<lparr>loginFunc := Some (\<lambda>_ _. Some (OtherErr ''no''))\<rparr>) demo_broker"
  have "core_inv ?st" using demo_core core_inv_same [OF same_core_session] by blast
  moreover have "getHeader subscribe_frame HdrKeyID = ''s2''" "getHeader subscribe_frame HdrKeyDestination = ''/q''"
    "command subscribe_frame = CmdSubscribe" by code_simp+
  moreover have "reg ?st = reg demo_broker" by (simp add: update_session_def)
  ultimately show ?thesis using subscribe_needs_no_login [of ?st subscribe_frame "''s2''" "''/q''" demo_env "''uu''"] by simp
qed

text \<open>
  C36. A client frame whose only fault is an invalid escape sequence ends its session silently: the
  ERROR frame that should explain it quotes the sequence in its own header, fails the same
  validation, and nothing is written to any connection.
\<close>

theorem bad_escape_unanswered:
  assumes "NewFrameFromBytes raw = Ret f" and "command f \<in> set clientCmdSet"
    and "gm_get validationMap (command f) = Some t"
    and "\<And>h v. (h, v) \<in> set (headers f) \<Longrightarrow>
      h \<in> set (required t) \<or> h \<in> set (optional t) \<or> customHeadersAllowed f"
    and "\<not> valid_headers (headers f)"
  shows "fst (handle_raw env sid raw st) = st \<and> is_fail (snd (handle_raw env sid raw st))"
  using bad_escape_silent [OF assms(1-3) _ assms(5)] assms(4) by blast

definition bad_frame :: Frame where
  "bad_frame = NewFrame CmdSend [(HdrKeyDestination, [BSL, CHR ''t''])] None"

theorem bad_escape_unanswered_witness:
  "fst (handle_raw demo_env ''u'' (serialize bad_frame) demo_broker) = demo_broker \<and>
     is_fail (snd (handle_raw demo_env ''u'' (serialize bad_frame) demo_broker))"
proof (rule bad_escape_unanswered)
  show "NewFrameFromBytes (serialize bad_frame) = Ret bad_frame" "command bad_frame \<in> set clientCmdSet"
    "gm_get validationMap (command bad_frame) = Some \<lparr>required = [HdrKeyDestination], optional = [HdrKeyTransaction]\<rparr>"
    "\<not> valid_headers (headers bad_frame)"
    by code_simp+
qed (auto simp: bad_frame_def NewFrame_def)

text \<open>
  C37. The headers of the sender win over those of the broker: every header of a SEND frame is in
  the MESSAGE under its lower-case name, even where the broker has one of that name, such as
  \<open>message-id\<close>, \<open>subscription\<close> or \<open>ack\<close>.
\<close>

theorem sender_headers_win:
  assumes "gm_ok (map (\<lambda>(k, v). (to_lower (unicode_lower env) k, v)) (headers f))" and "(k, v) \<in> set (headers f)"
  shows "gm_get (headers (message_frame env u dest i n tx f)) (to_lower (unicode_lower env) k) = Some v"
  using message_headers_sender [of "unicode_lower env" "range_over (range_order env u) (headers f)" k v] assms
  by (simp add: message_frame_def NewFrame_def)

theorem sender_headers_win_witness:
  "gm_get (headers (message_frame demo_env 0 ''/q'' ''s1'' 7 ''''
      (NewFrame CmdSend [(HdrKeyDestination, ''/q''), (''Message-ID'', ''forged'')] None))) HdrKeyMessageID = Some ''forged''"
proof -
  have low: "to_lower (unicode_lower demo_env) ''Message-ID'' = HdrKeyMessageID"
    "to_lower (unicode_lower demo_env) HdrKeyDestination = HdrKeyDestination" by code_simp+
  show ?thesis
    using sender_headers_win [of demo_env "NewFrame CmdSend [(HdrKeyDestination, ''/q''), (''Message-ID'', ''forged'')] None"
        "''Message-ID''" "''forged''" 0 "''/q''" "''s1''" 7 "''''"] low
    by (simp add: NewFrame_def)
qed

end
