(* ===== verification/Client.thy ===== *)
theory Client
  imports Sessions
begin

text \<open>
  The client of \<^verbatim>\<open>pkg/stomp/client.go\<close>: its state, the operations of its user (\<open>Connect\<close>,
  \<open>Send\<close>, \<open>Subscribe\<close>, the transactions), and the state machine that handles what the
  broker sends. Third-party code is that of \<open>env\<close> (see Sessions). The user's message
  handler is seen as the list of the messages it is called with. A \<open>Subscription\<close> and a
  \<open>Transaction\<close> point to the one client of the state; \<open>tx_open\<close> says whether the pointer of
  a transaction has not been set to nil.
\<close>

section \<open>State\<close>

abbreviation disconnectID :: string where "disconnectID \<equiv> ''BYE-BYE!''"

record UserMessage =
  Headers :: "(string, string) gomap"
  Body :: "string option"

record Subscription =
  SubsID :: string
  Destination :: string
  subs_ackMode :: AckMode

record Transaction =
  tx_open :: bool
  TxID :: string

record ackData =
  ack_subsID :: string
  ack_ackID :: string
  ack_txID :: string
  ack_ackMode :: AckMode

record ClientHandler =
  SessionID :: string
  c_conn :: conn
  c_host :: string
  c_login :: string
  c_passcode :: string
  hbSendInterval :: int
  hbRecvInterval :: int
  c_hbJob :: "nat option"
  msgHandler :: bool
  handled :: "UserMessage list"
  subsMap :: "string \<rightharpoonup> Subscription"
  ackCh :: "ackData list"
  c_uuids :: nat
  c_jobs :: "nat list"
  c_njobs :: nat

text \<open>\<open>make(chan *ackData, 100)\<close>\<close>

definition ackCh_capacity :: nat where
  "ackCh_capacity = 100"

record ClientOpts =
  VirtualHost :: string
  Login :: string
  Passcode :: string
  HeartbeatSendInterval :: int
  HeartbeatReceiveInterval :: int
  MessageHandler :: bool

text \<open>
  Opening a connection: what \<open>net.Dial\<close> and \<open>websocket.Dial\<close> return for an address is a
  parameter, \<open>None\<close> for a connection that is open and has carried nothing.
\<close>

definition startTcpClient :: "(string \<Rightarrow> go_error option) \<Rightarrow> string \<Rightarrow> string \<Rightarrow> conn result" where
  "startTcpClient net_Dial host port =
     (case net_Dial (host @ '':'' @ port) of
        Some err \<Rightarrow> Fail (errorMsg errNetwork (''Connect failed: '' @ error_text err))
      | None \<Rightarrow> Ret new_conn)"

definition startWebsocketClient :: "(string \<Rightarrow> go_error option) \<Rightarrow> string \<Rightarrow> string \<Rightarrow> conn result" where
  "startWebsocketClient websocket_Dial host port =
     (case websocket_Dial (''ws://'' @ host @ '':'' @ port) of Some err \<Rightarrow> Fail err | None \<Rightarrow> Ret new_conn)"

text \<open>The first part of \<open>NewClientHandler\<close>; \<open>Fail\<close> is \<open>log.Fatal\<close> with that text.\<close>

definition dial_broker ::
  "(string \<Rightarrow> go_error option) \<Rightarrow> (string \<Rightarrow> go_error option) \<Rightarrow> string \<Rightarrow> string \<Rightarrow> string \<Rightarrow> conn result" where
  "dial_broker net_Dial websocket_Dial transport host port =
     (if transport = TransportTCP then startTcpClient net_Dial host port
      else if transport = TransportWebsocket then startWebsocketClient websocket_Dial host port
      else Fail (OtherErr (''Invalid transport:'' @ transport @ ''. Expected:'' @ TransportTCP @ ''or'' @
        TransportWebsocket)))"

text \<open>
  The second part: the client over an open connection, whose remote address is a parameter;
  \<open>None\<close> are nil options.
\<close>

definition client_over :: "string \<Rightarrow> conn \<Rightarrow> ClientOpts option \<Rightarrow> ClientHandler" where
  "client_over remoteAddr c opts =
     (let opts = (case opts of Some opts \<Rightarrow> opts
                  | None \<Rightarrow> \<lparr>VirtualHost = '''', Login = '''', Passcode = '''', HeartbeatSendInterval = 0,
                             HeartbeatReceiveInterval = 0, MessageHandler = False\<rparr>);
          opts = (if VirtualHost opts = '''' then opts\<lparr>VirtualHost := remoteAddr\<rparr> else opts)
      in \<lparr>SessionID = '''', c_conn = c, c_host = VirtualHost opts, c_login = Login opts,
          c_passcode = Passcode opts, hbSendInterval = HeartbeatSendInterval opts,
          hbRecvInterval = HeartbeatReceiveInterval opts, c_hbJob = None,
          msgHandler = MessageHandler opts, handled = [], subsMap = Map.empty, ackCh = [],
          c_uuids = 0, c_jobs = [], c_njobs = 0\<rparr>)"

definition NewClientHandler ::
  "(string \<Rightarrow> go_error option) \<Rightarrow> (string \<Rightarrow> go_error option) \<Rightarrow> string \<Rightarrow> string \<Rightarrow> string \<Rightarrow> string \<Rightarrow>
     ClientOpts option \<Rightarrow> ClientHandler result" where
  "NewClientHandler net_Dial websocket_Dial remoteAddr transport host port opts =
     (case dial_broker net_Dial websocket_Dial transport host port of
        Ret conn \<Rightarrow> Ret (client_over remoteAddr conn opts)
      | Fail err \<Rightarrow> Fail err
      | Panic p \<Rightarrow> Panic p
      | Block \<Rightarrow> Block)"

text \<open>\<open>SetMessageHandler\<close>; only whether the handler is nil matters.\<close>

definition SetMessageHandler :: "bool \<Rightarrow> ClientHandler \<Rightarrow> ClientHandler" where
  "SetMessageHandler handlerFunc c = c\<lparr>msgHandler := handlerFunc\<rparr>"

section \<open>Sending\<close>

definition write_client :: "env \<Rightarrow> string \<Rightarrow> ClientHandler \<Rightarrow> ClientHandler \<times> unit result" where
  "write_client env bytes c =
     (case retry_write env (c_conn c) bytes of (cn, r) \<Rightarrow> (c\<lparr>c_conn := cn\<rparr>, r))"

definition client_sendRaw :: "env \<Rightarrow> string \<Rightarrow> ClientHandler \<Rightarrow> ClientHandler \<times> unit result" where
  "client_sendRaw env bdy c = write_client env bdy c"

definition client_send ::
  "env \<Rightarrow> Command \<Rightarrow> (Header, string) gomap \<Rightarrow> string option \<Rightarrow> ClientHandler \<Rightarrow> ClientHandler \<times> unit result" where
  "client_send env cmd hdrs bdy c =
     (let f = NewFrame cmd hdrs bdy
      in case Validate ClientFrame f of
           Ret _ \<Rightarrow> write_client env (serialize f) c
         | Fail err \<Rightarrow> (c, Fail err)
         | Panic p \<Rightarrow> (c, Panic p)
         | Block \<Rightarrow> (c, Block))"

definition connect_headers :: "ClientHandler \<Rightarrow> (Header, string) gomap" where
  "connect_headers c =
     (let hdrs = [(HdrKeyAcceptVersion, ''1.2''), (HdrKeyHost, c_host c)];
          hdrs = (if c_login c \<noteq> '''' then
                    gm_set HdrKeyPassCode (c_passcode c) (gm_set HdrKeyLogin (c_login c) hdrs)
                  else hdrs)
      in if hbSendInterval c \<noteq> 0 \<or> hbRecvInterval c \<noteq> 0 then
           gm_set HdrKeyHeartBeat (fmt_hb (hbSendInterval c) (hbRecvInterval c)) hdrs
         else hdrs)"

definition connect :: "env \<Rightarrow> bool \<Rightarrow> ClientHandler \<Rightarrow> ClientHandler \<times> unit result" where
  "connect env useStomp c =
     client_send env (if useStomp then CmdStomp else CmdConnect) (connect_headers c) None c"

definition send_headers ::
  "string \<Rightarrow> string option \<Rightarrow> string \<Rightarrow> (string, string) gomap \<Rightarrow> (Header, string) gomap" where
  "send_headers dest bdy contentType customHeaders =
     fold (\<lambda>(k, v). gm_set k v) customHeaders
       [(HdrKeyDestination, dest), (HdrKeyContentType, contentType),
        (HdrKeyContentLength, itoa (int (case bdy of None \<Rightarrow> 0 | Some b \<Rightarrow> length b)))]"

definition Send ::
  "env \<Rightarrow> string \<Rightarrow> string option \<Rightarrow> string \<Rightarrow> (string, string) gomap \<Rightarrow> ClientHandler \<Rightarrow>
     ClientHandler \<times> unit result" where
  "Send env dest bdy contentType customHeaders c =
     client_send env CmdSend (send_headers dest bdy contentType customHeaders) bdy c"

definition Disconnect :: "env \<Rightarrow> ClientHandler \<Rightarrow> ClientHandler \<times> unit result" where
  "Disconnect env c = client_send env CmdDisconnect [(HdrKeyReceipt, disconnectID)] None c"

section \<open>Subscriptions and transactions\<close>

definition Subscribe :: "env \<Rightarrow> string \<Rightarrow> AckMode \<Rightarrow> ClientHandler \<Rightarrow> ClientHandler \<times> Subscription result" where
  "Subscribe env dest mode c =
     (let subID = newUUID env (c_uuids c);
          c = c\<lparr>c_uuids := Suc (c_uuids c)\<rparr>;
          mode = (if mode = '''' then HdrValAckAuto else mode);
          h = [(HdrKeyID, subID), (HdrKeyDestination, dest), (HdrKeyAck, mode)]
      in and_then (client_send env CmdSubscribe h None c) (\<lambda>_ c.
           let s = \<lparr>SubsID = subID, Destination = dest, subs_ackMode = mode\<rparr>
           in (c\<lparr>subsMap := (subsMap c)(subID \<mapsto> s)\<rparr>, Ret s)))"

definition Unsubscribe :: "env \<Rightarrow> Subscription \<Rightarrow> ClientHandler \<Rightarrow> ClientHandler \<times> unit result" where
  "Unsubscribe env s c = client_send env CmdUnsubscribe [(HdrKeyID, SubsID s)] None c"

definition BeginTransaction :: "env \<Rightarrow> ClientHandler \<Rightarrow> ClientHandler \<times> Transaction result" where
  "BeginTransaction env c =
     (let txID = newUUID env (c_uuids c);
          c = c\<lparr>c_uuids := Suc (c_uuids c)\<rparr>
      in and_then (client_send env CmdBegin [(HdrKeyTransaction, txID)] None c) (\<lambda>_ c.
           (c, Ret \<lparr>tx_open = True, TxID = txID\<rparr>)))"

definition tx_headers :: "(string \<Rightarrow> string) \<Rightarrow> string \<Rightarrow> (string, string) gomap \<Rightarrow> (string, string) gomap" where
  "tx_headers U txID hdrs =
     gm_set HdrKeyTransaction txID (fold (\<lambda>(k, v). gm_set (to_lower U k) v) hdrs [])"

definition Tx_Send ::
  "env \<Rightarrow> Transaction \<Rightarrow> string \<Rightarrow> string option \<Rightarrow> string \<Rightarrow> (string, string) gomap \<Rightarrow> ClientHandler \<Rightarrow>
     ClientHandler \<times> unit result" where
  "Tx_Send env t dest bdy contentType hdrs c =
     (if \<not> tx_open t then (c, Fail (errorMsg errProtocolFrame ''Send on closed transaction''))
      else Send env dest bdy contentType
             (tx_headers (unicode_lower env) (TxID t) (range_over (range_order env (c_uuids c)) hdrs)) c)"

text \<open>The two operations that end a transaction return it closed when the frame was sent.\<close>

definition AbortTransaction ::
  "env \<Rightarrow> Transaction \<Rightarrow> ClientHandler \<Rightarrow> (ClientHandler \<times> Transaction) \<times> unit result" where
  "AbortTransaction env t c =
     (if \<not> tx_open t then ((c, t), Fail (errorMsg errProtocolFrame ''Abort on closed transaction''))
      else (case client_send env CmdAbort [(HdrKeyTransaction, TxID t)] None c of
              (c, Ret _) \<Rightarrow> ((c, t\<lparr>tx_open := False\<rparr>), Ret ())
            | (c, r) \<Rightarrow> ((c, t), r)))"

definition CommitTransaction ::
  "env \<Rightarrow> Transaction \<Rightarrow> ClientHandler \<Rightarrow> (ClientHandler \<times> Transaction) \<times> unit result" where
  "CommitTransaction env t c =
     (if \<not> tx_open t then ((c, t), Fail (errorMsg errProtocolFrame ''Commit on closed transaction''))
      else (case client_send env CmdCommit [(HdrKeyTransaction, TxID t)] None c of
              (c, Ret _) \<Rightarrow> ((c, t\<lparr>tx_open := False\<rparr>), Ret ())
            | (c, r) \<Rightarrow> ((c, t), r)))"

definition sendAck :: "env \<Rightarrow> string \<Rightarrow> string \<Rightarrow> ClientHandler \<Rightarrow> ClientHandler \<times> unit result" where
  "sendAck env i txID c =
     (let m = [(HdrKeyID, i)];
          m = (if txID \<noteq> '''' then gm_set HdrKeyTransaction txID m else m)
      in client_send env CmdAck m None c)"

section \<open>What the broker sends\<close>

definition client_schedule :: "env \<Rightarrow> ClientHandler \<Rightarrow> ClientHandler \<times> unit result" where
  "client_schedule env c =
     (let (job, err) = sched_do env (c_njobs c) (hbSendInterval c) (SessionID c);
          c = c\<lparr>c_njobs := Suc (c_njobs c), c_hbJob := job\<rparr>
      in (case err of
            Some e \<Rightarrow> (c, Fail (errorMsg errClientStateMachine (''Heartbeat setup error: '' @ error_text e)))
          | None \<Rightarrow> (c\<lparr>c_jobs := (case job of None \<Rightarrow> c_jobs c | Some j \<Rightarrow> c_jobs c @ [j])\<rparr>, Ret ())))"

definition client_negotiateHeartbeats :: "env \<Rightarrow> string \<Rightarrow> ClientHandler \<Rightarrow> ClientHandler \<times> unit result" where
  "client_negotiateHeartbeats env hbVal c =
     (case parseHbVal hbVal of
        Fail err \<Rightarrow> (c, Fail err)
      | Panic p \<Rightarrow> (c, Panic p)
      | Block \<Rightarrow> (c, Block)
      | Ret (brokerSendInterval, brokerRecvInterval) \<Rightarrow>
          let c = (if brokerSendInterval = 0 \<or> hbRecvInterval c = 0 then c\<lparr>hbRecvInterval := 0\<rparr>
                   else if brokerSendInterval > hbRecvInterval c then c\<lparr>hbRecvInterval := brokerSendInterval\<rparr>
                   else c)
          in if brokerRecvInterval = 0 \<or> hbSendInterval c = 0 then (c\<lparr>hbSendInterval := 0\<rparr>, Ret ())
             else client_schedule env
                    (if brokerRecvInterval > hbSendInterval c then c\<lparr>hbSendInterval := brokerRecvInterval\<rparr>
                     else c))"

definition handleConnected :: "env \<Rightarrow> Frame \<Rightarrow> ClientHandler \<Rightarrow> ClientHandler \<times> unit result" where
  "handleConnected env f c =
     (let c = c\<lparr>SessionID := getHeader f HdrKeySession\<rparr>
      in if SessionID c = '''' then
           (c, Fail (errorMsg errClientStateMachine ''Missing session ID in connection''))
         else
           let hbVal = getHeader f HdrKeyHeartBeat
           in if hbVal \<noteq> '''' then client_negotiateHeartbeats env hbVal c else (c, Ret ()))"

definition getUserMessage :: "Frame \<Rightarrow> UserMessage" where
  "getUserMessage f = \<lparr>Headers = fold (\<lambda>(h, v). gm_set h v) (headers f) [], Body = body f\<rparr>"

text \<open>
  Nothing reads the channel \<open>ackCh\<close> (\<open>ackHandler\<close> is commented out), so a send on it blocks
  forever once the buffer is full.
\<close>

definition send_ackCh :: "ackData \<Rightarrow> ClientHandler \<Rightarrow> ClientHandler \<times> unit result" where
  "send_ackCh d c =
     (if length (ackCh c) < ackCh_capacity then (c\<lparr>ackCh := ackCh c @ [d]\<rparr>, Ret ()) else (c, Block))"

definition handleMessage :: "env \<Rightarrow> Frame \<Rightarrow> ClientHandler \<Rightarrow> ClientHandler \<times> unit result" where
  "handleMessage env f c =
     (let c = (if msgHandler c then c\<lparr>handled := handled c @ [getUserMessage f]\<rparr> else c)
      in if getHeader f HdrKeyAck = '''' then (c, Ret ())
         else
           (case subsMap c (getHeader f HdrKeySubscription) of
              None \<Rightarrow> (c, Ret ())
            | Some subs \<Rightarrow>
                if subs_ackMode subs = HdrValAckClientIndividual then
                  regardless (sendAck env (getHeader f HdrKeyAck) (getHeader f HdrKeyTransaction) c)
                    (\<lambda>c. (c, Ret ()))
                else
                  send_ackCh \<lparr>ack_subsID = SubsID subs, ack_ackID = getHeader f HdrKeyAck,
                    ack_txID = getHeader f HdrKeyTransaction, ack_ackMode = subs_ackMode subs\<rparr> c))"

definition client_stateMachine :: "env \<Rightarrow> Frame \<Rightarrow> ClientHandler \<Rightarrow> ClientHandler \<times> unit result" where
  "client_stateMachine env f c =
     (if command f = CmdConnected then handleConnected env f c
      else if command f = CmdMessage then handleMessage env f c
      else if command f = CmdReceipt then
        (if getHeader f HdrKeyReceiptID = disconnectID then
           (c\<lparr>c_conn := (c_conn c)\<lparr>conn_closed := True\<rparr>\<rparr>, Fail (OtherErr ''bye''))
         else (c, Ret ()))
      else if command f = CmdError then Disconnect env c
      else (c, Ret ()))"

text \<open>
  The body of the loop in the goroutine of \<open>Connect\<close> (\<open>Fail\<close> is the \<open>break\<close>), the loop over
  the frames of the connection, and the clean-up after it.
\<close>

definition client_raw :: "env \<Rightarrow> string \<Rightarrow> ClientHandler \<Rightarrow> ClientHandler \<times> unit result" where
  "client_raw env raw c =
     (case NewFrameFromBytes raw of
        Fail err \<Rightarrow> (c, Fail err)
      | Panic p \<Rightarrow> (c, Panic p)
      | Block \<Rightarrow> (c, Block)
      | Ret frame \<Rightarrow>
          (case Validate ServerFrame frame of
             Fail err \<Rightarrow> (c, Fail err)
           | Panic p \<Rightarrow> (c, Panic p)
           | Block \<Rightarrow> (c, Block)
           | Ret _ \<Rightarrow> client_stateMachine env frame c))"

fun client_loop :: "env \<Rightarrow> string list \<Rightarrow> ClientHandler \<Rightarrow> ClientHandler \<times> unit result" where
  "client_loop env [] c = (c, Ret ())"
| "client_loop env (raw # raws) c =
     (case client_raw env raw c of
        (c', Ret _) \<Rightarrow> client_loop env raws c'
      | (c', Fail err) \<Rightarrow> (c', Ret ())
      | (c', Panic p) \<Rightarrow> (c', Panic p)
      | (c', Block) \<Rightarrow> (c', Block))"

definition client_run :: "env \<Rightarrow> string list \<Rightarrow> ClientHandler \<Rightarrow> ClientHandler \<times> unit result" where
  "client_run env raws c =
     and_then (client_loop env raws c) (\<lambda>_ c.
       (case c_hbJob c of
          None \<Rightarrow> (c, Ret ())
        | Some j \<Rightarrow> (c\<lparr>c_jobs := filter (\<lambda>j'. j' \<noteq> j) (c_jobs c)\<rparr>, Ret ())))"

text \<open>\<open>Connect\<close>: the CONNECT frame, and the goroutine over the frames that then arrive.\<close>

definition Connect :: "env \<Rightarrow> bool \<Rightarrow> string list \<Rightarrow> ClientHandler \<Rightarrow> ClientHandler \<times> unit result" where
  "Connect env useStompCmd raws c =
     and_then (connect env useStompCmd c) (\<lambda>_ c. client_run env raws c)"

declare startTcpClient_def [go_eval] startWebsocketClient_def [go_eval] dial_broker_def [go_eval]
  NewClientHandler_def [go_eval] client_over_def [go_eval] write_client_def [go_eval] client_sendRaw_def [go_eval]
  client_send_def [go_eval] connect_headers_def [go_eval] connect_def [go_eval] send_headers_def [go_eval]
  Send_def [go_eval] Disconnect_def [go_eval] Subscribe_def [go_eval] Unsubscribe_def [go_eval]
  BeginTransaction_def [go_eval] tx_headers_def [go_eval] Tx_Send_def [go_eval]
  AbortTransaction_def [go_eval] CommitTransaction_def [go_eval] sendAck_def [go_eval]
  client_schedule_def [go_eval] client_negotiateHeartbeats_def [go_eval] handleConnected_def [go_eval]
  getUserMessage_def [go_eval] send_ackCh_def [go_eval] handleMessage_def [go_eval]
  client_stateMachine_def [go_eval] client_raw_def [go_eval] client_run_def [go_eval]
  Connect_def [go_eval] ackCh_capacity_def [go_eval]

section \<open>Heart-beats meet the contract\<close>

lemma client_schedule_same:
  "hbSendInterval (fst (client_schedule env c)) = hbSendInterval c"
  "hbRecvInterval (fst (client_schedule env c)) = hbRecvInterval c"
  by (simp_all add: client_schedule_def Let_def split: prod.splits option.splits)

interpretation client_hb: hb_peer "client_negotiateHeartbeats env" hbSendInterval hbRecvInterval for env
proof
  fix v a b c
  assume "parseHbVal v = Ret (a, b)"
  then show "hbSendInterval (fst (client_negotiateHeartbeats env v c)) = negotiated (hbSendInterval c) b \<and>
      hbRecvInterval (fst (client_negotiateHeartbeats env v c)) = negotiated (hbRecvInterval c) a"
    by (auto simp: client_negotiateHeartbeats_def Let_def client_schedule_same negotiated_def)
next
  fix v c
  assume "\<not> is_ret (parseHbVal v)"
  with parseHbVal_result [of v]
  show "fst (client_negotiateHeartbeats env v c) = c \<and> is_fail (snd (client_negotiateHeartbeats env v c))"
    by (cases "parseHbVal v") (simp_all add: client_negotiateHeartbeats_def)
qed

section \<open>What the client sends\<close>

text \<open>What the client has delivered to the broker.\<close>

definition c_sent :: "ClientHandler \<Rightarrow> string list" where
  "c_sent c = conn_sent (c_conn c)"

lemma write_client_result:
  "snd (write_client env b c) = (case deliver env (c_conn c) b of None \<Rightarrow> Ret () | Some e \<Rightarrow> Fail e)"
  by (simp add: write_client_def retry_write_def split: option.splits)

lemma write_client_sent:
  "c_sent (fst (write_client env b c)) = c_sent c @ (if deliver env (c_conn c) b = None then [b] else [])"
  by (simp add: write_client_def retry_write_def c_sent_def split: option.splits)

lemma write_client_same:
  "subsMap (fst (write_client env b c)) = subsMap c" "ackCh (fst (write_client env b c)) = ackCh c"
  "handled (fst (write_client env b c)) = handled c" "c_uuids (fst (write_client env b c)) = c_uuids c"
  "msgHandler (fst (write_client env b c)) = msgHandler c"
  by (simp_all add: write_client_def split: prod.splits)

lemma client_send_cases:
  obtains (sent) "Validate ClientFrame (NewFrame cmd h b) = Ret ()"
      "client_send env cmd h b c = write_client env (serialize (NewFrame cmd h b)) c"
  | (invalid) e where "Validate ClientFrame (NewFrame cmd h b) = Fail e"
      "client_send env cmd h b c = (c, Fail e)"
  using Validate_not_panic [of ClientFrame "NewFrame cmd h b"] Validate_result [of ClientFrame "NewFrame cmd h b"]
  by (cases "Validate ClientFrame (NewFrame cmd h b)") (auto simp: client_send_def Let_def)

section \<open>The client as a machine\<close>

datatype client_op =
    UConnect bool
  | USend string "string option" string "(string, string) gomap"
  | USubscribe string AckMode
  | UUnsubscribe Subscription
  | UBegin
  | UTxSend Transaction string "string option" string "(string, string) gomap"
  | UAbort Transaction
  | UCommit Transaction
  | UDisconnect
  | UBeat
  | UHandler bool
  | UFrame string

text \<open>A result without its value.\<close>

fun void :: "'a result \<Rightarrow> unit result" where
  "void (Ret _) = Ret ()"
| "void (Fail e) = Fail e"
| "void (Panic p) = Panic p"
| "void Block = Block"

fun client_step :: "env \<Rightarrow> client_op \<Rightarrow> ClientHandler \<Rightarrow> ClientHandler \<times> unit result" where
  "client_step env (UConnect u) c = connect env u c"
| "client_step env (USend d b t h) c = Send env d b t h c"
| "client_step env (USubscribe d m) c = map_prod id void (Subscribe env d m c)"
| "client_step env (UUnsubscribe s) c = Unsubscribe env s c"
| "client_step env UBegin c = map_prod id void (BeginTransaction env c)"
| "client_step env (UTxSend t d b ty h) c = Tx_Send env t d b ty h c"
| "client_step env (UAbort t) c = map_prod fst id (AbortTransaction env t c)"
| "client_step env (UCommit t) c = map_prod fst id (CommitTransaction env t c)"
| "client_step env UDisconnect c = Disconnect env c"
| "client_step env UBeat c = client_sendRaw env [LF] c"
| "client_step env (UHandler h) c = (SetMessageHandler h c, Ret ())"
| "client_step env (UFrame raw) c = client_raw env raw c"

text \<open>
  What the client puts on the wire is a heart-beat or a valid client frame, the map of its
  subscriptions is keyed by their IDs, and the acknowledgement channel holds at most its
  capacity.
\<close>

definition good_bytes :: "string \<Rightarrow> bool" where
  "good_bytes b \<longleftrightarrow> b = [LF] \<or> (\<exists>f. b = serialize f \<and> Validate ClientFrame f = Ret ())"

definition client_inv :: "ClientHandler \<Rightarrow> bool" where
  "client_inv c \<longleftrightarrow>
     list_all good_bytes (c_sent c) \<and>
     (\<forall>i s. subsMap c i = Some s \<longrightarrow> SubsID s = i) \<and>
     length (ackCh c) \<le> ackCh_capacity"

lemma client_inv_cong:
  "c_conn c' = c_conn c \<Longrightarrow> subsMap c' = subsMap c \<Longrightarrow> ackCh c' = ackCh c \<Longrightarrow> client_inv c' = client_inv c"
  by (simp add: client_inv_def c_sent_def)

lemma client_inv_write: "client_inv c \<Longrightarrow> good_bytes b \<Longrightarrow> client_inv (fst (write_client env b c))"
  by (simp add: client_inv_def write_client_same write_client_sent)

lemma client_inv_send: "client_inv c \<Longrightarrow> client_inv (fst (client_send env cmd h b c))"
  by (cases rule: client_send_cases [of cmd h b env c])
    (auto intro!: client_inv_write simp: good_bytes_def)

lemma client_inv_subscribe:
  "client_inv c \<Longrightarrow> SubsID s = i \<Longrightarrow> client_inv (c\<lparr>subsMap := (subsMap c)(i \<mapsto> s)\<rparr>)"
  by (simp add: client_inv_def c_sent_def)

lemma client_inv_uuids [simp]:
  "client_inv (c\<lparr>c_uuids := n\<rparr>) = client_inv c" "client_inv (c\<lparr>SessionID := i\<rparr>) = client_inv c"
  "client_inv (c\<lparr>handled := ms\<rparr>) = client_inv c" "client_inv (c\<lparr>hbSendInterval := k\<rparr>) = client_inv c"
  "client_inv (c\<lparr>hbRecvInterval := k\<rparr>) = client_inv c" "client_inv (c\<lparr>msgHandler := h\<rparr>) = client_inv c"
  by (rule client_inv_cong, simp_all)+

lemma Subscribe_inv:
  assumes "client_inv c"
  shows "client_inv (fst (Subscribe env d m c))"
  unfolding Subscribe_def Let_def
  by (rule and_then_fst) (auto intro!: client_inv_send client_inv_subscribe simp: client_inv_uuids assms)

lemma BeginTransaction_inv:
  assumes "client_inv c"
  shows "client_inv (fst (BeginTransaction env c))"
  unfolding BeginTransaction_def Let_def
  by (rule and_then_fst) (auto intro!: client_inv_send simp: client_inv_uuids assms)

lemma close_transaction_inv:
  assumes "client_inv c"
  shows "client_inv (fst (fst (AbortTransaction env t c)))" and "client_inv (fst (fst (CommitTransaction env t c)))"
  using client_inv_send [OF assms, of env] assms
  by (auto simp: AbortTransaction_def CommitTransaction_def split: prod.splits outcome.splits)
    (metis fst_conv)+

lemma schedule_inv: "client_inv (fst (client_schedule env c)) = client_inv c"
  by (rule client_inv_cong) (simp_all add: client_schedule_def Let_def split: prod.splits option.splits)

lemma client_negotiate_inv: "client_inv (fst (client_negotiateHeartbeats env v c)) = client_inv c"
  by (simp add: client_negotiateHeartbeats_def Let_def schedule_inv split: outcome.splits prod.splits)

lemma handleConnected_inv: "client_inv (fst (handleConnected env f c)) = client_inv c"
  by (simp add: handleConnected_def Let_def client_negotiate_inv)

lemma handleMessage_inv: "client_inv c \<Longrightarrow> client_inv (fst (handleMessage env f c))"
proof -
  have ack: "client_inv (fst (regardless (sendAck env i t c') (\<lambda>c. (c, Ret ()))))" if "client_inv c'" for i t c'
    by (rule regardless_fst) (use that in \<open>auto simp: sendAck_def Let_def client_inv_send\<close>)
  have ch: "client_inv (fst (send_ackCh d c'))" if "client_inv c'" for d c'
    using that by (auto simp: send_ackCh_def client_inv_def c_sent_def)
  assume "client_inv c"
  then show ?thesis
    by (auto simp: handleMessage_def Let_def ack ch split: option.splits)
qed

lemma client_stateMachine_inv: "client_inv c \<Longrightarrow> client_inv (fst (client_stateMachine env f c))"
proof -
  have "client_inv (c\<lparr>c_conn := (c_conn c)\<lparr>conn_closed := True\<rparr>\<rparr>) = client_inv c"
    by (simp add: client_inv_def c_sent_def)
  moreover assume "client_inv c"
  ultimately show ?thesis
    by (simp add: client_stateMachine_def handleConnected_inv handleMessage_inv Disconnect_def client_inv_send)
qed

lemma client_raw_inv: "client_inv c \<Longrightarrow> client_inv (fst (client_raw env raw c))"
  by (simp add: client_raw_def client_stateMachine_inv split: outcome.splits)

lemma client_step_inv: "client_inv c \<Longrightarrow> client_inv (fst (client_step env x c))"
  by (cases x)
    (simp_all add: connect_def Send_def Unsubscribe_def Tx_Send_def Disconnect_def client_sendRaw_def
      client_inv_send client_inv_write good_bytes_def Subscribe_inv BeginTransaction_inv
      close_transaction_inv client_raw_inv SetMessageHandler_def)

interpretation client_machine: machine "client_step env" client_inv "\<lambda>_. True" for env
  by unfold_locales (rule client_step_inv)

text \<open>A new client is one over an unused connection.\<close>

lemma NewClientHandler_Ret:
  "NewClientHandler net_Dial websocket_Dial remoteAddr t host port opts = Ret c \<Longrightarrow>
     c = client_over remoteAddr new_conn opts"
  by (auto simp: NewClientHandler_def dial_broker_def startTcpClient_def startWebsocketClient_def
      split: if_splits option.splits)

lemma client_inv_new: "conn_sent cn = [] \<Longrightarrow> client_inv (client_over addr cn opts)"
  by (simp add: client_inv_def client_over_def c_sent_def Let_def)

section \<open>The acknowledgement channel\<close>

text \<open>Messages that are not acknowledged one by one.\<close>

definition queues_ack :: "ClientHandler \<Rightarrow> Frame \<Rightarrow> bool" where
  "queues_ack c f \<longleftrightarrow> getHeader f HdrKeyAck \<noteq> '''' \<and>
     (\<exists>s. subsMap c (getHeader f HdrKeySubscription) = Some s \<and> subs_ackMode s \<noteq> HdrValAckClientIndividual)"

lemma handleMessage_queue:
  assumes "queues_ack c f"
  shows "snd (handleMessage env f c) = (if length (ackCh c) < ackCh_capacity then Ret () else Block)"
    and "length (ackCh (fst (handleMessage env f c))) =
      (if length (ackCh c) < ackCh_capacity then Suc (length (ackCh c)) else length (ackCh c))"
    and "subsMap (fst (handleMessage env f c)) = subsMap c"
  using assms by (auto simp: queues_ack_def handleMessage_def send_ackCh_def Let_def)

fun handle_messages :: "env \<Rightarrow> Frame list \<Rightarrow> ClientHandler \<Rightarrow> ClientHandler \<times> unit result" where
  "handle_messages env [] c = (c, Ret ())"
| "handle_messages env (f # fs) c = and_then (handleMessage env f c) (\<lambda>_ c. handle_messages env fs c)"

lemma handle_messages_result:
  "list_all (queues_ack c) fs \<Longrightarrow> length (ackCh c) \<le> ackCh_capacity \<Longrightarrow>
     snd (handle_messages env fs c) =
       (if length (ackCh c) + length fs \<le> ackCh_capacity then Ret () else Block)"
proof (induction fs arbitrary: c)
  case (Cons f fs)
  from Cons.prems have f: "queues_ack c f" by simp
  obtain c' r where r: "handleMessage env f c = (c', r)" by (cases "handleMessage env f c")
  have "queues_ack c' = queues_ack c"
    using handleMessage_queue(3) [OF f, of env] r by (simp add: queues_ack_def fun_eq_iff)
  with Cons handleMessage_queue(1,2) [OF f, of env] r show ?case
    by (cases "length (ackCh c) < ackCh_capacity") auto
qed simp

section \<open>Properties\<close>

text \<open>
  C27. Whatever its user does and whatever the broker sends it, everything a client puts on the
  wire is a heart-beat or the serialization of a frame that passes the validation of client
  frames, its subscriptions are filed under their own IDs, and at most 100 acknowledgements
  wait in its channel.
\<close>

theorem client_invariant:
  "client_inv (run_ops (client_step env) ops (client_over addr new_conn opts))"
  by (rule client_machine.run_inv [OF client_inv_new]) (simp_all add: new_conn_def)

text \<open>
  A transaction that was committed or aborted is closed: every further operation on it
  fails without sending anything.
\<close>

theorem closed_transaction:
  assumes "CommitTransaction env t c = ((c', t'), Ret ()) \<or> AbortTransaction env t c = ((c', t'), Ret ())"
  shows "fst (Tx_Send env t' dest b ct hs c') = c' \<and> is_fail (snd (Tx_Send env t' dest b ct hs c')) \<and>
    fst (CommitTransaction env t' c') = (c', t') \<and> is_fail (snd (CommitTransaction env t' c')) \<and>
    fst (AbortTransaction env t' c') = (c', t') \<and> is_fail (snd (AbortTransaction env t' c'))"
proof -
  have "\<not> tx_open t'"
    using assms by (auto simp: CommitTransaction_def AbortTransaction_def split: if_splits prod.splits outcome.splits)
  then show ?thesis by (simp add: Tx_Send_def CommitTransaction_def AbortTransaction_def)
qed

definition echo_env :: env where
  "echo_env = \<lparr>newUUID = \<lambda>n. replicate (Suc n) CHR ''c'', releaseVersion = '''', deliver = \<lambda>_ _. None,
     sched_do = \<lambda>k i tag. (Some k, None), bitmap_minimum = \<lambda>_. Ret 0, unicode_lower = \<lambda>s. s,
     range_order = \<lambda>_ _ _. 0, torn = \<lambda>_ _. ''''\<rparr>"

definition demo_client :: ClientHandler where
  "demo_client = (client_over ''h'' new_conn None)
     \<lparr>msgHandler := True, subsMap := [''s1'' \<mapsto> \<lparr>SubsID = ''s1'', Destination = ''/q'', subs_ackMode = HdrValAckAuto\<rparr>]\<rparr>"

theorem closed_transaction_witness:
  "is_fail (snd (Tx_Send echo_env \<lparr>tx_open = False, TxID = ''t''\<rparr> ''/q'' None '''' []
     (fst (fst (CommitTransaction echo_env \<lparr>tx_open = True, TxID = ''t''\<rparr> demo_client)))))"
proof -
  let ?t = "\<lparr>tx_open = True, TxID = ''t''\<rparr>" and ?t' = "\<lparr>tx_open = False, TxID = ''t''\<rparr>"
  have "Validate ClientFrame (NewFrame CmdCommit [(HdrKeyTransaction, ''t'')] None) = Ret ()" by code_simp
  then have "CommitTransaction echo_env ?t demo_client =
      ((fst (fst (CommitTransaction echo_env ?t demo_client)), ?t'), Ret ())"
    by (simp add: CommitTransaction_def client_send_def write_client_def retry_write_def echo_env_def Let_def)
  then show ?thesis using closed_transaction [of echo_env ?t demo_client _ ?t'] by blast
qed

end
