(* ===== verification/Frame_Scanner.thy ===== *)
theory Frame_Scanner
  imports Serializer
begin

text \<open>
  \<^verbatim>\<open>pkg/stomp/frame_scanner.go\<close>: \<open>frameSplitter\<close>, which cuts the first frame off the
  received bytes, and \<open>frameScanner\<close>, which drives it over a connection with a
  \<open>bufio.Scanner\<close>. Positions are indices into \<open>data\<close>; \<open>U\<close> is the Unicode part of
  \<open>strings.ToLower\<close>.
\<close>

section \<open>The splitter\<close>

lemma header_loop_decreases:
  "index_byte LF (drop start data) = Some offset \<Longrightarrow>
     length data - Suc (start + offset) < length data - start"
  using index_byte_Some [of LF "drop start data" offset] by auto

text \<open>
  The loop over the header lines, from index \<open>start\<close>. It returns the index of the body
  and the body length; \<open>None\<close> is the return that asks for more data.
\<close>

function header_loop ::
  "(string \<Rightarrow> string) \<Rightarrow> string \<Rightarrow> nat \<Rightarrow> int \<Rightarrow> (nat \<times> int) option result" where
  "header_loop U data start bodyLen =
     (case index_byte LF (drop start data) of
        None \<Rightarrow> Fail (errorMsg errFrameScanner (''Too long, cannot find '' @ sq [LF]))
      | Some offset \<Rightarrow>
          let end = start + offset;
              line = take offset (drop start data)
          in if line = [] then
               (if start + 1 = length data then Ret None else Ret (Some (start + 1, bodyLen)))
             else
               let hdr = split_on COLON line
               in if length hdr = 1 then
                    Fail (errorMsg errFrameScanner (''Expected '' @ sq '':'' @ '' missing in header''))
                  else if HdrKeyContentLength = to_lower U (hdr ! 0) then
                    (case atoi (hdr ! 1) of
                       Inl err \<Rightarrow> Fail (StompNumErr errFrameScanner
                         (''Invalid header: '' @ line @ '': '') (hdr ! 1) err)
                     | Inr n \<Rightarrow> header_loop U data (end + 1) n)
                  else header_loop U data (end + 1) bodyLen)"
  by pat_completeness auto

termination
  by (relation "measure (\<lambda>(U, data, start, bodyLen). length data - start)")
    (auto dest: header_loop_decreases)

declare header_loop.simps [simp del]

text \<open>The end of the frame: one newline byte after the NUL belongs to it.\<close>

definition finish_frame :: "string \<Rightarrow> nat \<Rightarrow> nat \<Rightarrow> (nat \<times> string option) result" where
  "finish_frame data frameStart end =
     (let end = (if end < length data \<and> (data ! end = CR \<or> data ! end = LF)
                 then end + 1 else end)
      in if end < frameStart then Panic SliceBounds
         else Ret (end, Some (drop frameStart (take end data))))"

text \<open>
  The body, from index \<open>start\<close>: up to the first NUL, or \<open>bodyLen\<close> bytes. The sum
  \<open>start + bodyLen\<close> is one of two 64-bit integers and wraps around. The result is the
  pair (advance, token).
\<close>

definition frame_body :: "string \<Rightarrow> nat \<Rightarrow> nat \<Rightarrow> int \<Rightarrow> (nat \<times> string option) result" where
  "frame_body data frameStart start bodyLen =
     (if bodyLen = - 1 then
        (case index_byte NUL (drop start data) of
           None \<Rightarrow> Ret (0, None)
         | Some offset \<Rightarrow> finish_frame data frameStart (start + offset + 1))
      else
        let end = wrap64 (int start + bodyLen)
        in if end > int (length data) - 1 then Ret (0, None)
           else if end < 0 then Panic IndexOutOfRange
           else if data ! nat end \<noteq> NUL then
             Fail (errorMsg errFrameScanner ''Invalid content-length, frame does end with NUL'')
           else finish_frame data frameStart (nat end + 1))"

text \<open>
  The index of the first byte that is neither a newline nor a carriage return is
  \<open>frameStart\<close>.
\<close>

definition frameSplitter ::
  "(string \<Rightarrow> string) \<Rightarrow> string \<Rightarrow> (nat \<times> string option) result" where
  "frameSplitter U data =
     (if data = [] then Ret (0, None)
      else
        let frameStart = length (takeWhile (\<lambda>c. c = LF \<or> c = CR) data)
        in if frameStart = length data then Ret (0, None)
           else
             (case index_byte LF (drop frameStart data) of
                None \<Rightarrow> Fail (errorMsg errFrameScanner (''Too long, cannot find '' @ sq [LF]))
              | Some offset \<Rightarrow>
                  (case header_loop U data (frameStart + offset + 1) (- 1) of
                     Ret None \<Rightarrow> Ret (0, None)
                   | Ret (Some (start, bodyLen)) \<Rightarrow> frame_body data frameStart start bodyLen
                   | Fail e \<Rightarrow> Fail e
                   | Panic p \<Rightarrow> Panic p
                   | Block \<Rightarrow> Block)))"

section \<open>The scanner\<close>

text \<open>
  \<open>bufio.Scanner.Scan\<close> in a loop, as \<open>frameScanner\<close> runs it: \<open>buf\<close> holds the bytes that
  were read and not consumed, \<open>reads\<close> the results of the calls of \<open>Read\<close> still to come
  (then end of file), \<open>eof\<close> says that end of file was read. The tokens are those sent on
  the channel. How the loop ends: at end of file, with an error of the splitter, with a
  buffer of \<open>maxTokenSize\<close> bytes that holds no token (\<open>bufio.ErrTooLong\<close>), with a token
  that reaches beyond the buffer (\<open>bufio.ErrAdvanceTooFar\<close>), with a panic of the
  splitter, or never (\<open>ScanSpin\<close>: the same token again and again). The reads are any strings:
  those that \<open>bufio\<close> can get, which fit into the free part of its buffer, are among them;
  that it gives up after 100 empty reads (\<open>io.ErrNoProgress\<close>) is left out, since a connection
  returns bytes or an error.
\<close>

datatype scan_end =
    ScanEOF | ScanErr go_error | ScanTooLong | ScanAdvanceTooFar | ScanPanic go_panic | ScanSpin

definition maxTokenSize :: nat where
  "maxTokenSize = 64 * 1024"

function scan_loop ::
  "(string \<Rightarrow> (nat \<times> string option) result) \<Rightarrow> string \<Rightarrow> string list \<Rightarrow> bool \<Rightarrow>
     string list \<times> scan_end" where
  "scan_loop split buf reads eof =
     (let more = (\<lambda>buf.
        (if eof then ([], ScanEOF)
         else if length buf \<ge> maxTokenSize then ([], ScanTooLong)
         else (case reads of
                 [] \<Rightarrow> scan_loop split buf [] True
               | r # rs \<Rightarrow> scan_loop split (buf @ r) rs False)))
      in if buf \<noteq> [] \<or> eof then
           (case split buf of
              Fail e \<Rightarrow> ([], ScanErr e)
            | Panic p \<Rightarrow> ([], ScanPanic p)
            | Block \<Rightarrow> ([], ScanSpin)
            | Ret (advance, token) \<Rightarrow>
                if advance > length buf then ([], ScanAdvanceTooFar)
                else (case token of
                        None \<Rightarrow> more (drop advance buf)
                      | Some tok \<Rightarrow>
                          if advance = 0 then ([tok], ScanSpin)
                          else (case scan_loop split (drop advance buf) reads eof of
                                  (toks, e) \<Rightarrow> (tok # toks, e))))
         else more buf)"
  by pat_completeness auto
termination
  by (relation "measures [\<lambda>(split, buf, reads, eof). length reads,
      \<lambda>(split, buf, reads, eof). if eof then 0 else 1,
      \<lambda>(split, buf, reads, eof). length buf]") auto

declare scan_loop.simps [simp del]

definition frameScanner :: "(string \<Rightarrow> string) \<Rightarrow> string list \<Rightarrow> string list \<times> scan_end" where
  "frameScanner U reads = scan_loop (frameSplitter U) [] reads False"

declare finish_frame_def [go_eval] frame_body_def [go_eval] frameSplitter_def [go_eval] frameScanner_def [go_eval]

section \<open>What the splitter promises the scanner\<close>

text \<open>
  \<open>covers skip toks s\<close>: the tokens are consecutive pieces of the stream \<open>s\<close>, in order
  and without overlap, and only bytes of \<open>skip\<close> lie before each of them.
\<close>

inductive covers :: "char set \<Rightarrow> string list \<Rightarrow> string \<Rightarrow> bool" for skip where
  covers_Nil: "covers skip [] s"
| covers_Cons: "set g \<subseteq> skip \<Longrightarrow> covers skip ts s \<Longrightarrow> covers skip (t # ts) (g @ t @ s)"

lemma covers_token:
  "take n buf = g @ tok \<Longrightarrow> set g \<subseteq> skip \<Longrightarrow> covers skip toks (drop n buf @ s) \<Longrightarrow>
     covers skip (tok # toks) (buf @ s)"
  using covers_Cons [of g skip toks "drop n buf @ s" tok] append_take_drop_id [of n buf]
  by (metis append.assoc)

locale split_func =
  fixes split :: "string \<Rightarrow> (nat \<times> string option) result"
    and skip :: "char set"
  assumes split_none: "split data = Ret (adv, None) \<Longrightarrow> adv = 0"
    and split_some: "split data = Ret (adv, Some tok) \<Longrightarrow> 0 < adv \<and> adv \<le> length data"
    and split_piece: "split data = Ret (adv, Some tok) \<Longrightarrow>
      \<exists>g. take adv data = g @ tok \<and> set g \<subseteq> skip"
    and split_returns: "split data \<noteq> Block"
begin


lemma scan_fail: "buf \<noteq> [] \<or> eof \<Longrightarrow> split buf = Fail e \<Longrightarrow> scan_loop split buf reads eof = ([], ScanErr e)"
  by (subst scan_loop.simps) simp

lemma scan_panic:
  "buf \<noteq> [] \<or> eof \<Longrightarrow> split buf = Panic p \<Longrightarrow> scan_loop split buf reads eof = ([], ScanPanic p)"
  by (subst scan_loop.simps) simp

lemma scan_token:
  assumes "buf \<noteq> [] \<or> eof" and "split buf = Ret (adv, Some tok)"
  shows "scan_loop split buf reads eof =
    (tok # fst (scan_loop split (drop adv buf) reads eof), snd (scan_loop split (drop adv buf) reads eof))"
  using split_some [OF assms(2)] assms
  by (subst scan_loop.simps) (simp split: prod.splits)

lemma scan_more:
  assumes "buf = [] \<or> split buf = Ret (adv, None)"
  shows "scan_loop split buf reads False =
    (if length buf \<ge> maxTokenSize then ([], ScanTooLong)
     else (case reads of
             [] \<Rightarrow> scan_loop split buf [] True
           | r # rs \<Rightarrow> scan_loop split (buf @ r) rs False))"
proof (cases "buf = []")
  case False
  with assms split_none [of buf adv] have "split buf = Ret (0, None)" by auto
  then show ?thesis by (subst scan_loop.simps) (auto simp: Let_def split: list.splits)
qed (subst scan_loop.simps, auto simp: Let_def split: list.splits)

lemma scan_eof: "split buf = Ret (adv, None) \<Longrightarrow> scan_loop split buf reads True = ([], ScanEOF)"
  using split_none [of buf adv] by (subst scan_loop.simps) simp

lemma scan_induct [case_names fail panic eof tok full last read]:
  assumes fail: "\<And>buf reads eof e. buf \<noteq> [] \<or> eof \<Longrightarrow> split buf = Fail e \<Longrightarrow> P buf reads eof"
    and panic: "\<And>buf reads eof p. buf \<noteq> [] \<or> eof \<Longrightarrow> split buf = Panic p \<Longrightarrow> P buf reads eof"
    and eof: "\<And>buf reads adv. split buf = Ret (adv, None) \<Longrightarrow> P buf reads True"
    and tok: "\<And>buf reads eof adv tok. buf \<noteq> [] \<or> eof \<Longrightarrow> split buf = Ret (adv, Some tok) \<Longrightarrow>
      P (drop adv buf) reads eof \<Longrightarrow> P buf reads eof"
    and full: "\<And>buf reads adv. buf = [] \<or> split buf = Ret (adv, None) \<Longrightarrow>
      length buf \<ge> maxTokenSize \<Longrightarrow> P buf reads False"
    and last: "\<And>buf adv. buf = [] \<or> split buf = Ret (adv, None) \<Longrightarrow>
      length buf < maxTokenSize \<Longrightarrow> P buf [] True \<Longrightarrow> P buf [] False"
    and read: "\<And>buf r rs adv. buf = [] \<or> split buf = Ret (adv, None) \<Longrightarrow>
      length buf < maxTokenSize \<Longrightarrow> P (buf @ r) rs False \<Longrightarrow> P buf (r # rs) False"
  shows "P buf reads eof"
proof (induction "(buf, reads, eof)" arbitrary: buf reads eof
    rule: wf_induct_rule [OF wf_measures [of "[\<lambda>(buf, reads, eof). length reads,
      \<lambda>(buf, reads, eof). if eof then 0 else 1, \<lambda>(buf, reads, eof). length buf]"]])
  case (1 buf reads eof)
  note IH = 1
  show ?case
  proof (cases "buf = [] \<and> \<not> eof")
    case True
    then show ?thesis
      using full [of buf 0 reads] last [of buf 0] read [of buf 0] IH
      by (cases reads; cases "length buf \<ge> maxTokenSize") (auto simp: not_le)
  next
    case False
    show ?thesis
    proof (cases "split buf")
      case (Ret x)
      obtain adv t where x: "x = (adv, t)" by (cases x)
      show ?thesis
      proof (cases t)
        case None
        show ?thesis
          using Ret x None eof [of buf adv reads] full [of buf adv reads] last [of buf adv] read [of buf adv] IH
          by (cases eof; cases reads; cases "length buf \<ge> maxTokenSize") (auto simp: not_le)
      next
        case (Some tk)
        with Ret x split_some [of buf adv tk] have "length (drop adv buf) < length buf" by auto
        then show ?thesis using tok [of buf eof adv tk reads] False Ret x Some IH by auto
      qed
    qed (use False fail panic split_returns in auto)
  qed
qed

lemma scan_progress: "snd (scan_loop split buf reads eof) \<notin> {ScanSpin, ScanAdvanceTooFar}"
proof (induction buf reads eof rule: scan_induct)
  case (full buf reads adv)
  then show ?case by (simp add: scan_more)
next
  case (last buf adv)
  then show ?case by (simp add: scan_more)
next
  case (read buf r rs adv)
  then show ?case by (simp add: scan_more)
qed (simp_all add: scan_fail scan_panic scan_eof scan_token)

lemma scan_covers: "covers skip (fst (scan_loop split buf reads eof)) (buf @ concat reads)"
proof (induction buf reads eof rule: scan_induct)
  case (tok buf reads eof adv t)
  obtain g where "take adv buf = g @ t" "set g \<subseteq> skip" using split_piece [OF tok(2)] by blast
  then show ?case using covers_token [OF _ _ tok(3)] by (simp add: scan_token [OF tok(1,2)])
next
  case (full buf reads adv)
  then show ?case by (simp add: scan_more covers_Nil)
next
  case (last buf adv)
  then show ?case by (simp add: scan_more)
next
  case (read buf r rs adv)
  then show ?case by (simp add: scan_more)
qed (simp_all add: scan_fail scan_panic scan_eof covers_Nil)

end

section \<open>The splitter keeps its promises\<close>

lemma header_loop_result:
  "(\<exists>e. header_loop U data start b = Fail e) \<or> header_loop U data start b = Ret None \<or>
   (\<exists>s n. header_loop U data start b = Ret (Some (s, n)) \<and> start < s \<and> s < length data \<and>
      (n = b \<or> int64 n))"
proof (induction U data start b rule: header_loop.induct)
  case (1 U data start b)
  show ?case
  proof (cases "index_byte LF (drop start data)")
    case None
    then show ?thesis by (simp add: header_loop.simps [of U data start b])
  next
    case (Some off)
    let ?line = "take off (drop start data)"
    let ?hdr = "split_on COLON ?line"
    have bound: "start + off < length data" using index_byte_Some [OF Some] by auto
    consider (blank) "?line = []" | (nocolon) "?line \<noteq> []" "length ?hdr = 1"
      | (other) "?line \<noteq> []" "length ?hdr \<noteq> 1" "HdrKeyContentLength \<noteq> to_lower U (?hdr ! 0)"
      | (bad) e where "?line \<noteq> []" "length ?hdr \<noteq> 1" "HdrKeyContentLength = to_lower U (?hdr ! 0)"
          "atoi (?hdr ! 1) = Inl e"
      | (len) n where "?line \<noteq> []" "length ?hdr \<noteq> 1" "HdrKeyContentLength = to_lower U (?hdr ! 0)"
          "atoi (?hdr ! 1) = Inr n"
      by (cases "atoi (?hdr ! 1)") blast+
    then show ?thesis
    proof cases
      case blank
      with Some bound show ?thesis
        by (auto simp: header_loop.simps [of U data start b])
    next
      case other
      with Some have "header_loop U data start b = header_loop U data (start + off + 1) b"
        by (subst header_loop.simps) (simp add: Let_def)
      with "1.IH"(2) [OF Some refl refl other(1) refl other(2) other(3)] show ?thesis by auto
    next
      case len
      with Some have "header_loop U data start b = header_loop U data (start + off + 1) n"
        by (subst header_loop.simps) (simp add: Let_def)
      with "1.IH"(1) [OF Some refl refl len(1) refl len(2) len(3) len(4)] atoi_range [OF len(4)]
      show ?thesis by auto
    qed (use Some in \<open>simp_all add: header_loop.simps [of U data start b] Let_def\<close>)
  qed
qed

lemma header_loop_Some:
  assumes "header_loop U data start b = Ret (Some (s, n))"
  shows "start < s" and "s < length data" and "n = b \<or> int64 n"
  using header_loop_result [of U data start b] assms by auto

lemma header_loop_not: "header_loop U data start b \<noteq> Panic p" "header_loop U data start b \<noteq> Block"
  using header_loop_result [of U data start b] by auto

text \<open>Where a token can come from: the two ways of finding the end of the frame.\<close>

lemma finish_frame_cases:
  "finish_frame data fs end = Panic SliceBounds \<or>
   (\<exists>adv. finish_frame data fs end = Ret (adv, Some (drop fs (take adv data))) \<and> fs \<le> adv \<and>
      end \<le> adv \<and> (end \<le> length data \<longrightarrow> adv \<le> length data))"
  by (auto simp: finish_frame_def Let_def)

lemma frame_body_cases:
  assumes "start < length data"
  shows "frame_body data fs start n = Ret (0, None) \<or> (\<exists>p. frame_body data fs start n = Panic p) \<or>
    (\<exists>e. frame_body data fs start n = Fail e) \<or>
    (\<exists>adv. frame_body data fs start n = Ret (adv, Some (drop fs (take adv data))) \<and>
       fs \<le> adv \<and> 0 < adv \<and> adv \<le> length data)"
proof -
  have fin: "finish_frame data fs stop = Panic SliceBounds \<or>
      (\<exists>adv. finish_frame data fs stop = Ret (adv, Some (drop fs (take adv data))) \<and>
         fs \<le> adv \<and> 0 < adv \<and> adv \<le> length data)" if "0 < stop" "stop \<le> length data" for stop
    using finish_frame_cases [of data fs stop] that by auto
  show ?thesis
  proof (cases "n = - 1")
    case True
    show ?thesis
    proof (cases "index_byte NUL (drop start data)")
      case (Some off)
      with index_byte_Some [OF Some] True fin [of "start + off + 1"] show ?thesis
        by (auto simp: frame_body_def)
    qed (simp add: frame_body_def True)
  next
    case False
    then show ?thesis using fin [of "nat (wrap64 (int start + n)) + 1"]
      by (auto simp: frame_body_def Let_def)
  qed
qed

lemma frameSplitter_cases:
  "frameSplitter U data = Ret (0, None) \<or> (\<exists>p. frameSplitter U data = Panic p) \<or>
   (\<exists>e. frameSplitter U data = Fail e) \<or>
   (\<exists>adv. frameSplitter U data =
       Ret (adv, Some (drop (length (takeWhile (\<lambda>c. c = LF \<or> c = CR) data)) (take adv data))) \<and>
     length (takeWhile (\<lambda>c. c = LF \<or> c = CR) data) \<le> adv \<and> 0 < adv \<and> adv \<le> length data)"
proof -
  define fs where "fs = length (takeWhile (\<lambda>c. c = LF \<or> c = CR) data)"
  show ?thesis
  proof (cases "data = [] \<or> fs = length data")
    case False
    show ?thesis
    proof (cases "index_byte LF (drop fs data)")
      case (Some off)
      let ?s = "fs + off + 1"
      have eq: "frameSplitter U data = (case header_loop U data ?s (- 1) of
          Ret None \<Rightarrow> Ret (0, None)
        | Ret (Some (start, n)) \<Rightarrow> frame_body data fs start n
        | Fail e \<Rightarrow> Fail e | Panic p \<Rightarrow> Panic p | Block \<Rightarrow> Block)"
        using False Some unfolding frameSplitter_def Let_def fs_def [symmetric] by simp
      show ?thesis
        using header_loop_result [of U data ?s "- 1"] frame_body_cases [of _ data fs]
        unfolding eq fs_def [symmetric] by (elim disjE exE) auto
    qed (use False in \<open>simp add: frameSplitter_def fs_def\<close>)
  qed (auto simp: frameSplitter_def fs_def)
qed

lemma frameSplitter_token:
  assumes "frameSplitter U data = Ret (adv, Some tok)"
  shows "0 < adv \<and> adv \<le> length data" and "\<exists>g. take adv data = g @ tok \<and> set g \<subseteq> {LF, CR}"
proof -
  define fs where "fs = length (takeWhile (\<lambda>c. c = LF \<or> c = CR) data)"
  have a: "0 < adv" "adv \<le> length data" "fs \<le> adv" "tok = drop fs (take adv data)"
    using frameSplitter_cases [of U data] assms by (auto simp: fs_def)
  then show "0 < adv \<and> adv \<le> length data" by simp
  from a have "take adv data = take fs data @ tok"
    by (metis append_take_drop_id min.absorb1 take_take)
  moreover have "set (take fs data) \<subseteq> {LF, CR}"
    using set_takeWhileD [of _ _ data] by (auto simp: fs_def simp flip: takeWhile_eq_take)
  ultimately show "\<exists>g. take adv data = g @ tok \<and> set g \<subseteq> {LF, CR}" by blast
qed

lemma frameSplitter_none: "frameSplitter U data = Ret (adv, None) \<Longrightarrow> adv = 0"
  using frameSplitter_cases [of U data] by auto

lemma frameSplitter_returns: "frameSplitter U data \<noteq> Block"
  using frameSplitter_cases [of U data] by auto

interpretation splitter: split_func "frameSplitter U" "{LF, CR}" for U
proof
  show "frameSplitter U data = Ret (adv, None) \<Longrightarrow> adv = 0" for data adv
    by (rule frameSplitter_none)
  show "frameSplitter U data = Ret (adv, Some tok) \<Longrightarrow> 0 < adv \<and> adv \<le> length data" for data adv tok
    by (rule frameSplitter_token)
  show "frameSplitter U data = Ret (adv, Some tok) \<Longrightarrow>
      \<exists>g. take adv data = g @ tok \<and> set g \<subseteq> {LF, CR}" for data adv tok
    by (rule frameSplitter_token)
  show "frameSplitter U data \<noteq> Block" for data
    by (rule frameSplitter_returns)
qed

section \<open>The splitter on serialized frames\<close>

text \<open>
  A frame declares its body length as the splitter understands it: every header that
  the splitter takes for \<open>content-length\<close> holds the length of the body, and there is one
  if the body holds a NUL.
\<close>

definition is_length_key :: "(string \<Rightarrow> string) \<Rightarrow> string \<Rightarrow> bool" where
  "is_length_key U k \<longleftrightarrow> to_lower U (escape k) = HdrKeyContentLength"

definition length_ok :: "(string \<Rightarrow> string) \<Rightarrow> Frame \<Rightarrow> bool" where
  "length_ok U f \<longleftrightarrow>
     list_all (\<lambda>(k, v). is_length_key U k \<longrightarrow> escape v = itoa (int (length (body_bytes f)))) (headers f) \<and>
     (NUL \<in> set (body_bytes f) \<longrightarrow> list_ex (is_length_key U) (gm_keys (headers f)))"

lemma drop_append_length [simp]: "drop (length a) (a @ b) = b"
  by simp

lemma header_loop_blank:
  assumes "drop start data = LF # b"
  shows "header_loop U data start n = (if b = [] then Ret None else Ret (Some (start + 1, n)))"
proof -
  from assms have "length data - start = Suc (length b)"
    by (metis length_Cons length_drop)
  then have "start + 1 = length data \<longleftrightarrow> length b = 0" by linarith
  with assms show ?thesis by (subst header_loop.simps) simp
qed

lemma header_loop_line:
  assumes "drop start data = header_text f k @ LF # b"
    and "is_length_key U k \<Longrightarrow> escape (gm_str (headers f) k) = itoa n \<and> int64 n"
  shows "header_loop U data start m =
    header_loop U data (start + length (header_text f k) + 1) (if is_length_key U k then n else m)"
proof -
  have idx: "index_byte LF (drop start data) = Some (length (header_text f k))"
    using assms(1) header_text_line by simp
  have line: "take (length (header_text f k)) (drop start data) = header_text f k"
    using assms(1) by simp
  show ?thesis
    using assms(2) atoi_itoa [of n] header_text_line [of f k]
    by (subst header_loop.simps)
      (auto simp: idx line Let_def header_text_split is_length_key_def)
qed

lemma header_loop_lines:
  assumes "drop start data = lf_lines (map (header_text f) ks) @ LF # b" and "b \<noteq> []"
    and "\<And>k. k \<in> set ks \<Longrightarrow> is_length_key U k \<Longrightarrow> escape (gm_str (headers f) k) = itoa n" and "int64 n"
  shows "header_loop U data start m =
    Ret (Some (start + length (lf_lines (map (header_text f) ks)) + 1,
      if list_ex (is_length_key U) ks then n else m))"
  using assms
proof (induction ks arbitrary: start m)
  case (Cons k ks)
  let ?t = "header_text f k"
  have d: "drop start data = ?t @ LF # lf_lines (map (header_text f) ks) @ LF # b"
    using Cons.prems(1) by simp
  have "drop (start + length ?t + 1) data = drop (length ?t + 1) (drop start data)"
    by (simp add: ac_simps)
  also have "\<dots> = lf_lines (map (header_text f) ks) @ LF # b"
    unfolding d by simp
  finally have next_line: "drop (start + length ?t + 1) data = lf_lines (map (header_text f) ks) @ LF # b" .
  have "header_loop U data start m =
      header_loop U data (start + length ?t + 1) (if is_length_key U k then n else m)"
    using header_loop_line [OF d] Cons.prems by auto
  with Cons.IH [OF next_line] Cons.prems show ?case by auto
qed (simp add: header_loop_blank)

text \<open>The bytes after the NUL that the splitter takes along.\<close>

definition eol_after :: "string \<Rightarrow> string" where
  "eol_after rest = (if rest \<noteq> [] \<and> (hd rest = CR \<or> hd rest = LF) then [hd rest] else [])"

lemma finish_frame_at:
  assumes "data = e @ p @ rest"
  shows "finish_frame data (length e) (length e + length p) =
    Ret (length e + length p + length (eol_after rest), Some (p @ eol_after rest))"
proof (cases rest)
  case (Cons c cs)
  then have "data ! (length e + length p) = c" using assms by (simp add: nth_append)
  with Cons assms show ?thesis by (simp add: finish_frame_def eol_after_def)
qed (use assms in \<open>simp add: finish_frame_def eol_after_def\<close>)

lemma serialize_length: "length (serialize f) = length (lf_lines (head_lines f)) + length (body_bytes f) + 2"
  by (simp add: serialize_lines)

lemma frame_body_serialize:
  assumes data: "data = e @ serialize f @ rest" and "length data < 2 ^ 63"
    and n: "n = int (length (body_bytes f)) \<or> n = - 1 \<and> NUL \<notin> set (body_bytes f)"
  shows "frame_body data (length e) (length e + length (lf_lines (head_lines f)) + 1) n =
    Ret (length e + length (serialize f) + length (eol_after rest), Some (serialize f @ eol_after rest))"
proof -
  let ?s = "length e + length (lf_lines (head_lines f)) + 1" and ?b = "body_bytes f"
  have d: "data = (e @ lf_lines (head_lines f) @ [LF]) @ ?b @ NUL # rest"
    by (simp add: data serialize_lines)
  then have body: "drop ?s data = ?b @ NUL # rest"
    by (metis (no_types, lifting) One_nat_def ab_semigroup_add_class.add_ac(1) drop_append_length
        length_Cons length_append list.size(3))
  have at: "data ! (?s + length ?b) = NUL"
    using d by (simp add: nth_append)
  have fin: "finish_frame data (length e) (?s + length ?b + 1) =
      Ret (length e + length (serialize f) + length (eol_after rest), Some (serialize f @ eol_after rest))"
    using finish_frame_at [OF data] by (simp add: serialize_length ac_simps)
  have len: "length data = ?s + length ?b + 1 + length rest" using d by simp
  show ?thesis
  proof (cases "n = - 1")
    case True
    with n have "NUL \<notin> set ?b" by auto
    then have "index_byte NUL (drop ?s data) = Some (length ?b)" unfolding body by simp
    with True fin show ?thesis unfolding frame_body_def by simp
  next
    case False
    with n have n': "n = int (length ?b)" by simp
    have "int64 (int ?s + n)" using assms(2) len n' by (simp add: int64_def)
    then have w: "wrap64 (int ?s + n) = int (?s + length ?b)" by (simp add: wrap64_id n')
    have "nat (int (?s + length ?b)) = ?s + length ?b" by (rule nat_int)
    then show ?thesis
      unfolding frame_body_def w using False fin at len by (simp add: Let_def)
  qed
qed

text \<open>The head of a serialized frame, when every length header holds the number \<open>n\<close>.\<close>

definition declares :: "(string \<Rightarrow> string) \<Rightarrow> int \<Rightarrow> Frame \<Rightarrow> bool" where
  "declares U n f \<longleftrightarrow> int64 n \<and> list_all (\<lambda>(k, v). is_length_key U k \<longrightarrow> escape v = itoa n) (headers f)"

lemma frameSplitter_head:
  assumes f: "head_ok f" "declares U n f" and e: "set e \<subseteq> {LF, CR}"
  shows "frameSplitter U (e @ serialize f @ rest) =
    frame_body (e @ serialize f @ rest) (length e) (length e + length (lf_lines (head_lines f)) + 1)
      (if list_ex (is_length_key U) (gm_keys (headers f)) then n else - 1)"
proof -
  define data where "data = e @ serialize f @ rest"
  let ?ks = "getSortedHeaderKeys f"
  let ?tail = "lf_lines (map (header_text f) ?ks) @ LF # body_bytes f @ NUL # rest"
  have d: "data = e @ command f @ LF # ?tail"
    by (simp add: data_def serialize_lines head_lines_def)
  obtain c cs where c: "command f = c # cs" "c \<noteq> LF" "c \<noteq> CR" "LF \<notin> set (command f)"
    using f(1) by (cases "command f") (auto simp: head_ok_def)
  have fs: "length (takeWhile (\<lambda>c. c = LF \<or> c = CR) data) = length e"
  proof -
    have "takeWhile (\<lambda>c. c = LF \<or> c = CR) data = e @ takeWhile (\<lambda>c. c = LF \<or> c = CR) (command f @ LF # ?tail)"
      unfolding d by (rule takeWhile_append2) (use e in auto)
    then show ?thesis using c by simp
  qed
  have ne: "data \<noteq> []" "length e \<noteq> length data" using d c by auto
  have idx: "index_byte LF (drop (length e) data) = Some (length (command f))"
    unfolding d using c by simp
  have tail: "drop (length e + length (command f) + 1) data = ?tail"
    unfolding d by simp
  have key: "escape (gm_str (headers f) k) = itoa n" if "k \<in> set ?ks" "is_length_key U k" for k
    using sorted_key_entry [OF _ that(1), of "\<lambda>(k, v). is_length_key U k \<longrightarrow> escape v = itoa n"]
      f(2) that(2) by (simp add: declares_def)
  have "int64 n" using f(2) by (simp add: declares_def)
  then have "header_loop U data (length e + length (command f) + 1) (- 1) =
      Ret (Some (length e + length (lf_lines (head_lines f)) + 1,
        if list_ex (is_length_key U) ?ks then n else - 1))"
    using header_loop_lines [OF tail _ key] by (simp add: head_lines_def ac_simps)
  moreover have "list_ex (is_length_key U) ?ks = list_ex (is_length_key U) (gm_keys (headers f))"
    by (auto simp: list_ex_iff getSortedHeaderKeys_def)
  ultimately show ?thesis
    unfolding data_def [symmetric] frameSplitter_def Let_def fs idx using ne by simp
qed

lemma frameSplitter_serialize:
  assumes f: "head_ok f" "length_ok U f" and e: "set e \<subseteq> {LF, CR}"
    and len: "length (e @ serialize f @ rest) < 2 ^ 63"
  shows "frameSplitter U (e @ serialize f @ rest) =
    Ret (length e + length (serialize f) + length (eol_after rest), Some (serialize f @ eol_after rest))"
proof -
  let ?n = "int (length (body_bytes f))"
  have "declares U ?n f"
    using f(2) len by (simp add: declares_def length_ok_def int64_def serialize_length)
  moreover have "NUL \<notin> set (body_bytes f) \<or> list_ex (is_length_key U) (gm_keys (headers f))"
    using f(2) by (auto simp: length_ok_def)
  then have "frame_body (e @ serialize f @ rest) (length e) (length e + length (lf_lines (head_lines f)) + 1)
      (if list_ex (is_length_key U) (gm_keys (headers f)) then ?n else - 1) =
      Ret (length e + length (serialize f) + length (eol_after rest), Some (serialize f @ eol_after rest))"
    by (intro frame_body_serialize) (use len in auto)
  ultimately show ?thesis using frameSplitter_head [OF f(1) _ e] by simp
qed

text \<open>
  A length header whose sum with the start of the body is not a 64-bit index: a negative
  number, or one so large that the sum wraps around.
\<close>

lemma frameSplitter_bad_length:
  assumes "head_ok f" and "declares U n f" and "list_ex (is_length_key U) (gm_keys (headers f))"
    and "n \<noteq> - 1" and "wrap64 (int (length (lf_lines (head_lines f)) + 1) + n) < 0"
  shows "frameSplitter U (serialize f @ rest) = Panic IndexOutOfRange"
proof -
  let ?stop = "wrap64 (int (length (lf_lines (head_lines f)) + 1) + n)"
  have "\<not> ?stop > int (length (serialize f @ rest)) - 1"
    using assms(5) serialize_length [of f] by simp
  then show ?thesis
    using frameSplitter_head [OF assms(1,2), of "[]" rest] assms(3-5)
    by (simp add: frame_body_def Let_def)
qed

section \<open>The scanner on a stream of frames\<close>

text \<open>
  A peer writes frames and heartbeats (a lone newline, the empty list of frames with one
  newline). \<open>packet es f\<close> is what one \<open>Write\<close> of a frame puts on the wire, behind the
  newlines \<open>es\<close> that heartbeats left there.
\<close>

lemma frameSplitter_eols: "set e \<subseteq> {LF, CR} \<Longrightarrow> frameSplitter U e = Ret (0, None)"
proof -
  assume "set e \<subseteq> {LF, CR}"
  then have "takeWhile (\<lambda>c. c = LF \<or> c = CR) e = e"
    by (subst takeWhile_eq_all_conv) auto
  then show ?thesis unfolding frameSplitter_def Let_def by (simp only: if_True if_cancel refl)
qed

definition frame_ok :: "(string \<Rightarrow> string) \<Rightarrow> Frame \<Rightarrow> bool" where
  "frame_ok U f \<longleftrightarrow> wire_ok f \<and> length_ok U f"

lemma frame_ok_head: "frame_ok U f \<Longrightarrow> head_ok f" "frame_ok U f \<Longrightarrow> length_ok U f"
  by (simp_all add: frame_ok_def wire_ok_def)

text \<open>
  What is on the wire: frames and heartbeats. A \<open>Read\<close> returns the bytes of some whole
  packets (the splitter fails on a frame whose head arrives in two pieces, see
  \<open>frameSplitter_partial_command\<close> below).
\<close>

datatype packet = PFrame Frame | PBeat

fun packet_bytes :: "packet \<Rightarrow> string" where
  "packet_bytes (PFrame f) = serialize f"
| "packet_bytes PBeat = [LF]"

definition wire_bytes :: "packet list \<Rightarrow> string" where
  "wire_bytes ps = concat (map packet_bytes ps)"

lemma wire_bytes_simps [simp]:
  "wire_bytes [] = []" "wire_bytes (p # ps) = packet_bytes p @ wire_bytes ps"
  by (simp_all add: wire_bytes_def)

fun packet_frames :: "packet list \<Rightarrow> Frame list" where
  "packet_frames [] = []"
| "packet_frames (PFrame f # ps) = f # packet_frames ps"
| "packet_frames (PBeat # ps) = packet_frames ps"

lemma packet_frames_append [simp]: "packet_frames (ps @ qs) = packet_frames ps @ packet_frames qs"
  by (induction ps rule: packet_frames.induct) auto

fun packet_ok :: "(string \<Rightarrow> string) \<Rightarrow> packet \<Rightarrow> bool" where
  "packet_ok U (PFrame f) = frame_ok U f"
| "packet_ok U PBeat = True"

text \<open>
  Newlines that wait in the buffer: the splitter consumes none of them before a frame
  arrives, so \<open>pending\<close> counts the heartbeats since the last frame. The buffer of the
  scanner must not fill up with them (\<open>idle_ok\<close>).
\<close>

fun pending :: "nat \<Rightarrow> packet list \<Rightarrow> nat" where
  "pending n [] = n"
| "pending n (PFrame f # ps) = pending 0 ps"
| "pending n (PBeat # ps) = pending (n + 1) ps"

fun idle_ok :: "nat \<Rightarrow> packet list list \<Rightarrow> bool" where
  "idle_ok n [] = (n < maxTokenSize)"
| "idle_ok n (r # rs) =
     (n < maxTokenSize \<and> length (wire_bytes r) \<le> maxTokenSize \<and> idle_ok (pending n r) rs)"

lemma pending_mono: "m \<le> n \<Longrightarrow> pending m ps \<le> pending n ps"
  by (induction n ps arbitrary: m rule: pending.induct) auto

lemma idle_ok_mono: "m \<le> n \<Longrightarrow> idle_ok n rs \<Longrightarrow> idle_ok m rs"
proof (induction rs arbitrary: m n)
  case (Cons r rs)
  then have "idle_ok (pending m r) rs" using pending_mono [of m n r] by auto
  with Cons.prems show ?case by simp
qed simp

text \<open>A token that carries the frame: its bytes and perhaps a newline.\<close>

definition token_of :: "string \<Rightarrow> Frame \<Rightarrow> bool" where
  "token_of t f \<longleftrightarrow> t = serialize f \<or> t = serialize f @ [LF]"

lemma serialize_hd: "head_ok f \<Longrightarrow> serialize f \<noteq> [] \<and> hd (serialize f) \<noteq> LF \<and> hd (serialize f) \<noteq> CR"
  by (cases "command f") (auto simp: serialize_def head_ok_def)

lemma scan_eols_eof: "set e \<subseteq> {LF, CR} \<Longrightarrow> scan_loop (frameSplitter U) e [] True = ([], ScanEOF)"
  by (rule splitter.scan_eof) (rule frameSplitter_eols)

lemma scan_eols_more:
  assumes "set e \<subseteq> {LF, CR}" and "length e < maxTokenSize"
  shows "scan_loop (frameSplitter U) e reads False =
    (case reads of [] \<Rightarrow> ([], ScanEOF) | r # rs \<Rightarrow> scan_loop (frameSplitter U) (e @ r) rs False)"
  using splitter.scan_more [of e U 0 reads] frameSplitter_eols [OF assms(1)] scan_eols_eof [OF assms(1)]
    assms(2) by (simp split: list.splits)

lemma scan_frame:
  assumes f: "frame_ok U f" and e: "set e \<subseteq> {LF, CR}"
    and len: "length (e @ serialize f @ rest) < 2 ^ 63"
  shows "scan_loop (frameSplitter U) (e @ serialize f @ rest) reads eof =
    (let r = scan_loop (frameSplitter U) (drop (length (eol_after rest)) rest) reads eof
     in ((serialize f @ eol_after rest) # fst r, snd r))"
proof -
  have ne: "e @ serialize f @ rest \<noteq> [] \<or> eof"
    using serialize_hd [OF frame_ok_head(1) [OF f]] by simp
  have "drop (length e + length (serialize f) + length (eol_after rest)) (e @ serialize f @ rest) =
      drop (length (eol_after rest)) rest" by simp
  with splitter.scan_token [OF ne frameSplitter_serialize [OF frame_ok_head [OF f] e len]]
  show ?thesis by (simp add: Let_def)
qed

text \<open>The packets in the buffer, behind some newlines.\<close>

lemma scan_buffer:
  assumes "list_all (packet_ok U) ps" and "set e \<subseteq> {LF}" and "length (e @ wire_bytes ps) < 2 ^ 63"
  shows "\<exists>toks e'. list_all2 token_of toks (packet_frames ps) \<and> set e' \<subseteq> {LF} \<and>
    length e' \<le> pending (length e) ps \<and>
    (\<forall>reads eof. scan_loop (frameSplitter U) (e @ wire_bytes ps) reads eof =
       (toks @ fst (scan_loop (frameSplitter U) e' reads eof),
        snd (scan_loop (frameSplitter U) e' reads eof)))"
  using assms
proof (induction ps arbitrary: e rule: length_induct)
  case (1 ps)
  show ?case
  proof (cases ps)
    case Nil
    then show ?thesis using 1 by (intro exI [of _ "[]"] exI [of _ e]) auto
  next
    case (Cons p qs)
    show ?thesis
    proof (cases p)
      case PBeat
      with Cons "1.IH" [rule_format, of qs "e @ [LF]"] "1.prems" show ?thesis by auto
    next
      case (PFrame f)
      have f: "frame_ok U f" using Cons PFrame "1.prems"(1) by simp
      define rest where "rest = wire_bytes qs"
      obtain qs' where qs': "drop (length (eol_after rest)) rest = wire_bytes qs'"
        "packet_frames qs' = packet_frames qs" "length qs' \<le> length qs" "pending 0 qs' \<le> pending 0 qs"
        "list_all (packet_ok U) qs'" "eol_after rest = [] \<or> eol_after rest = [LF]"
      proof (cases "\<exists>qs'. qs = PBeat # qs'")
        case True
        then obtain qs' where "qs = PBeat # qs'" by blast
        then show thesis using Cons "1.prems"(1) pending_mono [of 0 1 qs']
          by (intro that [of qs']) (auto simp: rest_def eol_after_def)
      next
        case False
        have "eol_after rest = []"
        proof (cases qs)
          case (Cons q qs2)
          with False obtain g where "q = PFrame g" by (cases q) auto
          with Cons \<open>ps = p # qs\<close> "1.prems"(1) serialize_hd [of g] frame_ok_head(1) [of U g]
          show ?thesis by (auto simp: rest_def eol_after_def hd_append)
        qed (simp add: rest_def eol_after_def)
        then show thesis using Cons "1.prems"(1) by (intro that [of qs]) (auto simp: rest_def)
      qed
      have e: "set e \<subseteq> {LF, CR}" using "1.prems"(2) by auto
      have len: "length (e @ serialize f @ rest) < 2 ^ 63"
        using "1.prems"(3) Cons PFrame by (simp add: rest_def)
      have "length (wire_bytes qs') \<le> length rest" by (simp flip: qs'(1))
      then have "length (wire_bytes qs') < 2 ^ 63" using len by simp
      then obtain toks e' where t: "list_all2 token_of toks (packet_frames qs')" "set e' \<subseteq> {LF}"
        "length e' \<le> pending 0 qs'"
        and s: "\<And>reads eof. scan_loop (frameSplitter U) (wire_bytes qs') reads eof =
         (toks @ fst (scan_loop (frameSplitter U) e' reads eof),
          snd (scan_loop (frameSplitter U) e' reads eof))"
        using "1.IH" [rule_format, of qs' "[]"] qs' Cons by fastforce
      have "\<And>reads eof. scan_loop (frameSplitter U) (e @ wire_bytes ps) reads eof =
         (((serialize f @ eol_after rest) # toks) @ fst (scan_loop (frameSplitter U) e' reads eof),
          snd (scan_loop (frameSplitter U) e' reads eof))"
        using scan_frame [OF f e len] Cons PFrame by (simp add: qs'(1) s rest_def [symmetric])
      moreover have "list_all2 token_of ((serialize f @ eol_after rest) # toks) (packet_frames ps)"
        using t(1) qs' Cons PFrame by (auto simp: token_of_def)
      moreover have "length e' \<le> pending (length e) ps" using t(3) qs'(4) Cons PFrame by simp
      ultimately show ?thesis using t(2) by blast
    qed
  qed
qed

lemma scan_stream:
  assumes "list_all (list_all (packet_ok U)) rs" and "set e \<subseteq> {LF}" and "idle_ok (length e) rs"
  shows "\<exists>toks. scan_loop (frameSplitter U) e (map wire_bytes rs) False = (toks, ScanEOF) \<and>
    list_all2 token_of toks (packet_frames (concat rs))"
  using assms
proof (induction rs arbitrary: e)
  case Nil
  then show ?case using scan_eols_more [of e U "[]"] by auto
next
  case (Cons r rs)
  have e: "set e \<subseteq> {LF, CR}" using Cons.prems(2) by auto
  have len: "length (e @ wire_bytes r) < 2 ^ 63"
    using Cons.prems(3) by (simp add: maxTokenSize_def)
  have ok: "list_all (packet_ok U) r" "list_all (list_all (packet_ok U)) rs"
    using Cons.prems(1) by simp_all
  from scan_buffer [OF ok(1) Cons.prems(2) len]
  obtain toks e' where t: "list_all2 token_of toks (packet_frames r)" "set e' \<subseteq> {LF}"
    "length e' \<le> pending (length e) r"
    and s: "\<And>reads eof. scan_loop (frameSplitter U) (e @ wire_bytes r) reads eof =
       (toks @ fst (scan_loop (frameSplitter U) e' reads eof),
        snd (scan_loop (frameSplitter U) e' reads eof))"
    by blast
  have "idle_ok (length e') rs" using t(3) Cons.prems(3) idle_ok_mono by auto
  with Cons.IH [OF ok(2) t(2)] obtain toks' where
    "scan_loop (frameSplitter U) e' (map wire_bytes rs) False = (toks', ScanEOF)"
    "list_all2 token_of toks' (packet_frames (concat rs))" by auto
  with t(1) s scan_eols_more [OF e, of U "map wire_bytes (r # rs)"] Cons.prems(3) show ?case
    by (auto intro: list_all2_appendI)
qed

text \<open>Every token parses to the frame that was sent.\<close>

lemma token_of_parse: "frame_ok U f \<Longrightarrow> token_of t f \<Longrightarrow> NewFrameFromBytes t = Ret (normal f)"
  using NewFrameFromBytes_wire [of f "[]"] NewFrameFromBytes_wire [of f "[LF]"]
  by (auto simp: frame_ok_def token_of_def)

lemma packet_frames_ok: "list_all (packet_ok U) ps \<Longrightarrow> list_all (frame_ok U) (packet_frames ps)"
  by (induction ps rule: packet_frames.induct) auto

lemma tokens_parse:
  "list_all2 token_of toks fs \<Longrightarrow> list_all (frame_ok U) fs \<Longrightarrow>
     map NewFrameFromBytes toks = map (\<lambda>f. Ret (normal f)) fs"
  by (induction rule: list_all2_induct) (auto simp: token_of_parse)

lemma frameScanner_stream:
  assumes "list_all (list_all (packet_ok U)) rs" and "idle_ok 0 rs"
  shows "map NewFrameFromBytes (fst (frameScanner U (map wire_bytes rs))) =
      map (\<lambda>f. Ret (normal f)) (packet_frames (concat rs)) \<and>
    snd (frameScanner U (map wire_bytes rs)) = ScanEOF"
proof -
  from scan_stream [OF assms(1), of "[]"] assms(2) obtain toks where
    t: "frameScanner U (map wire_bytes rs) = (toks, ScanEOF)"
      "list_all2 token_of toks (packet_frames (concat rs))"
    by (auto simp: frameScanner_def)
  moreover have "list_all (frame_ok U) (packet_frames (concat rs))"
    using assms(1) by (intro packet_frames_ok) (auto simp: list_all_iff)
  ultimately show ?thesis using tokens_parse by simp
qed

section \<open>What makes the splitter give up\<close>

text \<open>A head that has not arrived in full ends the scan instead of asking for more bytes.\<close>

lemma frameSplitter_partial_command:
  assumes "LF \<notin> set d" and "\<not> set d \<subseteq> {CR}"
  shows "frameSplitter U d = Fail (errorMsg errFrameScanner (''Too long, cannot find '' @ sq [LF]))"
proof -
  define fs where "fs = length (takeWhile (\<lambda>c. c = LF \<or> c = CR) d)"
  have "length d = fs + length (dropWhile (\<lambda>c. c = LF \<or> c = CR) d)"
    unfolding fs_def length_append [symmetric] by simp
  moreover obtain x where x: "x \<in> set d" "x \<noteq> CR" using assms(2) by blast
  then have "x \<noteq> LF" using assms(1) by blast
  with x have "dropWhile (\<lambda>c. c = LF \<or> c = CR) d \<noteq> []"
    unfolding dropWhile_eq_Nil_conv by blast
  ultimately have fs: "fs \<noteq> length d" by (cases "dropWhile (\<lambda>c. c = LF \<or> c = CR) d") auto
  have "LF \<notin> set (drop fs d)" using assms(1) in_set_dropD by metis
  then have "index_byte LF (drop fs d) = None" by (simp only: index_byte_None_iff not_False_eq_True)
  with fs show ?thesis
    using assms(2) unfolding frameSplitter_def Let_def fs_def [symmetric] by auto
qed

text \<open>Heartbeats alone are never consumed: they fill the buffer.\<close>

lemma scan_beats:
  "set e \<subseteq> {LF} \<Longrightarrow> length e \<le> maxTokenSize \<Longrightarrow>
   scan_loop (frameSplitter U) e (replicate n [LF]) False =
     ([], if length e + n < maxTokenSize then ScanEOF else ScanTooLong)"
proof (induction n arbitrary: e)
  case 0
  then have "set e \<subseteq> {LF, CR}" by auto
  with 0 show ?case
    using splitter.scan_more [of e U 0 "[]"] frameSplitter_eols [of e U] scan_eols_eof [of e U] by simp
next
  case (Suc n)
  then have e: "set e \<subseteq> {LF, CR}" by auto
  show ?case
    using splitter.scan_more [of e U 0 "replicate (Suc n) [LF]"] frameSplitter_eols [OF e]
      Suc.IH [of "e @ [LF]"] Suc.prems by (cases "length e < maxTokenSize") auto
qed

section \<open>Properties\<close>

text \<open>
  C5. A stream of frames and heart-beats, in reads that hold whole packets, is cut into exactly
  the frames that were sent, in order, each of which parses back to the frame its sender
  serialized; the scan ends at end of file. The frames may declare a body length, and then
  their bodies may hold NUL bytes.
\<close>

theorem stream_round_trip:
  assumes "list_all (list_all (packet_ok U)) reads" and "idle_ok 0 reads"
  shows "map NewFrameFromBytes (fst (frameScanner U (map wire_bytes reads))) =
      map (\<lambda>f. Ret (normal f)) (packet_frames (concat reads)) \<and>
    snd (frameScanner U (map wire_bytes reads)) = ScanEOF"
  by (rule frameScanner_stream [OF assms])

definition sized_frame :: Frame where
  "sized_frame = NewFrame CmdSend
     [(HdrKeyDestination, ''/q''), (HdrKeyContentLength, ''3'')] (Some (''a'' @ [NUL] @ ''b''))"

definition demo_reads :: "packet list list" where
  "demo_reads = [[PBeat, PFrame sized_frame, PFrame (sized_frame\<lparr>body := Some ''xyz''\<rparr>)], [PBeat], [PFrame sized_frame]]"

lemma demo_reads_ok: "list_all (list_all (packet_ok (\<lambda>s. s))) demo_reads"
  by code_simp

lemma demo_reads_idle: "idle_ok 0 demo_reads"
proof -
  have "map (length \<circ> wire_bytes) demo_reads = [85, 1, 42]" by code_simp
  then show ?thesis by (simp add: demo_reads_def maxTokenSize_def)
qed

theorem stream_round_trip_witness:
  "map NewFrameFromBytes (fst (frameScanner (\<lambda>s. s) (map wire_bytes demo_reads))) =
    [Ret (normal sized_frame), Ret (normal (sized_frame\<lparr>body := Some ''xyz''\<rparr>)), Ret (normal sized_frame)]"
  using stream_round_trip [OF demo_reads_ok demo_reads_idle] by (simp add: demo_reads_def)

text \<open>
  C24. On any bytes from any peer, in any reads, the scanner's loop makes progress (it never
  delivers an empty advance or one beyond its buffer), and the tokens it sends on are
  consecutive pieces of the stream, in order, with nothing but newlines and carriage returns
  skipped between them.
\<close>

theorem scanner_sound:
  "covers {LF, CR} (fst (frameScanner U reads)) (concat reads) \<and>
   snd (frameScanner U reads) \<notin> {ScanSpin, ScanAdvanceTooFar}"
  using splitter.scan_covers [of U "[]" reads False] splitter.scan_progress [of U "[]" reads False]
  by (simp add: frameScanner_def)

text \<open>
  C39. A read that ends inside the command line ends the scan with an error, whatever follows:
  the splitter reports bytes without a newline as an error instead of asking for more.
\<close>

theorem split_head_fails:
  assumes "LF \<notin> set d" and "\<not> set d \<subseteq> {CR}"
  shows "frameScanner U (d # reads) =
    ([], ScanErr (errorMsg errFrameScanner (''Too long, cannot find '' @ sq [LF])))"
proof -
  have "d \<noteq> []" using assms(2) by auto
  with splitter.scan_more [of "[]" U 0 "d # reads"] splitter.scan_fail [OF _ frameSplitter_partial_command [OF assms]]
  show ?thesis by (simp add: frameScanner_def maxTokenSize_def)
qed

theorem split_head_fails_witness:
  "frameScanner (\<lambda>s. s) [''SE'', ''ND'' @ [LF], [LF, NUL]] =
    ([], ScanErr (errorMsg errFrameScanner (''Too long, cannot find '' @ sq [LF])))"
  by (rule split_head_fails) simp_all

text \<open>
  C38. A frame whose content-length makes the 64-bit index of its end negative panics the
  process that scans it.
\<close>

theorem bad_content_length_panics:
  assumes "head_ok f" and "declares U n f" and "list_ex (is_length_key U) (gm_keys (headers f))"
    and "n \<noteq> - 1" and "wrap64 (int (length (lf_lines (head_lines f)) + 1) + n) < 0"
  shows "frameScanner U ((serialize f @ rest) # reads) = ([], ScanPanic IndexOutOfRange)"
proof -
  have "serialize f \<noteq> []" by (simp add: serialize_def)
  with splitter.scan_more [of "[]" U 0 "(serialize f @ rest) # reads"]
    splitter.scan_panic [OF _ frameSplitter_bad_length [OF assms]]
  show ?thesis by (simp add: frameScanner_def maxTokenSize_def)
qed

theorem bad_content_length_panics_witness:
  "frameScanner (\<lambda>s. s) [serialize (NewFrame CmdSend [(HdrKeyContentLength, ''-100'')] None)] =
    ([], ScanPanic IndexOutOfRange)"
proof -
  let ?f = "NewFrame CmdSend [(HdrKeyContentLength, ''-100'')] None" and ?U = "\<lambda>s :: string. s"
  have key: "is_length_key ?U HdrKeyContentLength" and digits: "escape ''-100'' = itoa (- 100)" by code_simp+
  have "length (lf_lines (head_lines ?f)) = 25" by code_simp
  moreover have "head_ok ?f" by code_simp
  moreover have "declares ?U (- 100) ?f"
    using digits by (simp add: declares_def int64_def NewFrame_def)
  moreover have "list_ex (is_length_key ?U) (gm_keys (headers ?f))" using key by (simp add: NewFrame_def)
  ultimately show ?thesis
    using bad_content_length_panics [of ?f ?U "- 100" "[]" "[]"] by (simp add: wrap64_def)
qed

text \<open>
  C40. Heart-beats alone are never taken out of the scanner's buffer: a connection that stays idle
  for 65536 heart-beats is dropped with \<open>bufio.ErrTooLong\<close>, a shorter idle time is survived.
\<close>

theorem heartbeats_fill_buffer:
  "frameScanner U (replicate n [LF]) = ([], if n < 65536 then ScanEOF else ScanTooLong)"
  using scan_beats [of "[]" U n] by (simp add: frameScanner_def maxTokenSize_def)

end
