(* ===== verification/End_To_End.thy ===== *)
theory End_To_End
  imports Broker_Behaviour Client Frame_Scanner
begin

text \<open>
  Broker and client together: CONNECT and its answer with the heart-beat negotiation, and the way
  of a message from the \<open>Send\<close> of one client through the broker to the message handler of another.
\<close>

section \<open>Heart-beats\<close>

interpretation handshake: hb_handshake "negotiateHeartbeats env sid" "hb_send sid" "hb_recv sid"
  "client_negotiateHeartbeats env'" hbSendInterval hbRecvInterval for env sid env' ..

section \<open>Frames that have been on the wire\<close>

lemma set_headers_normal: "gm_ok (headers f) \<Longrightarrow> set (headers (normal f)) = set (headers f)"
proof -
  assume ok: "gm_ok (headers f)"
  have "(k, gm_str (headers f) k) = (k, v)" if "(k, v) \<in> set (headers f)" for k v
    using gm_get_in [OF ok that] by (simp add: gm_str_def)
  then show ?thesis
    by (auto simp: normal_def getSortedHeaderKeys_def gm_str_in image_iff) force
qed

lemma command_normal [simp]: "command (normal f) = command f"
  by (simp add: normal_def)

lemma conforms_normal: "gm_ok (headers f) \<Longrightarrow> conforms t (normal f) = conforms t f"
  by (simp add: conforms_def list_all_iff set_headers_normal map_of_normal customHeadersAllowed_def)

lemma Validate_normal:
  assumes "gm_ok (headers f)"
  shows "Validate ClientFrame (normal f) = Ret () \<longleftrightarrow> Validate ClientFrame f = Ret ()"
    and "Validate ServerFrame (normal f) = Ret () \<longleftrightarrow> Validate ServerFrame f = Ret ()"
  unfolding Validate_client_iff Validate_server_iff by (simp_all add: conforms_normal [OF assms])

text \<open>What a valid client frame does to the broker once it arrives.\<close>

lemma handle_raw_wire:
  assumes "wire_ok f" and "Validate ClientFrame f = Ret ()"
  shows "handle_raw env sid (serialize f) st = stateMachine env sid (normal f) st"
  using NewFrameFromBytes_wire [OF assms(1), of "[]"] Validate_normal(1) [of f] assms
  by (simp add: handle_raw_def wire_ok_def)

lemma client_raw_wire:
  assumes "wire_ok f" and "Validate ServerFrame f = Ret ()"
  shows "client_raw env (serialize f) c = client_stateMachine env (normal f) c"
  using NewFrameFromBytes_wire [OF assms(1), of "[]"] Validate_normal(2) [of f] assms
  by (simp add: client_raw_def wire_ok_def)

section \<open>Plain text\<close>

text \<open>Text without backslashes and carriage returns survives the wire.\<close>

definition plain :: "string \<Rightarrow> bool" where
  "plain s \<longleftrightarrow> BSL \<notin> set s \<and> CR \<notin> set s"

definition plain_headers :: "(Header, string) gomap \<Rightarrow> bool" where
  "plain_headers hs \<longleftrightarrow> list_all (\<lambda>(k, v). plain k \<and> plain v) hs"

definition plain_env :: "env \<Rightarrow> bool" where
  "plain_env env \<longleftrightarrow> (\<forall>n. plain (newUUID env n)) \<and> (\<forall>s. plain s \<longrightarrow> plain (unicode_lower env s))"

lemma ascii_lower_CR: "ascii_lower c = CR \<longleftrightarrow> c = CR"
  by (cases c) (auto simp: ascii_lower_def Let_def of_char_def char_of_def)

lemma plain_map_lower: "plain (map ascii_lower s) = plain s"
proof (induction s)
  case (Cons c s)
  with ascii_lower_BSL [of c] ascii_lower_CR [of c] show ?case by (auto simp: plain_def)
qed (simp add: plain_def)

lemma plain_lower: "plain_env env \<Longrightarrow> plain s \<Longrightarrow> plain (to_lower (unicode_lower env) s)"
  by (simp add: to_lower_def plain_env_def plain_map_lower)

lemma plain_fmtAckNum: "plain dest \<Longrightarrow> plain i \<Longrightarrow> plain (fmtAckNum dest i n)"
  by (auto simp: plain_def fmtAckNum_def dest: not_in_itoa [THEN notE, rotated 2])

lemma plain_wire:
  assumes "command f \<noteq> []" "LF \<notin> set (command f)" "CR \<notin> set (command f)"
    and "plain_headers (headers f)" "gm_ok (headers f)" "CR \<notin> set (body_bytes f)"
  shows "wire_ok f"
  using assms by (auto simp: wire_ok_def head_ok_def plain_headers_def plain_def list_all_iff escape_safe_plain)

lemma gm_ok_fold: "gm_ok h \<Longrightarrow> gm_ok (fold (\<lambda>(k, v). gm_set (g k) v) hs h)"
  by (induction hs arbitrary: h) (auto split: prod.splits)

lemma gm_ok_message: "gm_ok (message_headers U u dest i n tx hs)"
  unfolding message_headers_def Let_def by (rule gm_ok_fold) (auto intro: gm_ok_set)

lemma message_frame_wire:
  assumes env: "plain_env env" and "plain dest" "plain i" "plain tx" "plain_headers (headers f)"
    and body: "CR \<notin> set (body_bytes f)"
  shows "wire_ok (message_frame env u dest i n tx f)"
proof -
  let ?h = "message_headers (unicode_lower env) (newUUID env u) dest i n tx (range_over (range_order env u) (headers f))"
  have "plain k \<and> plain v" if "(k, v) \<in> set ?h" for k v
    using message_headers_entries [OF that] assms plain_fmtAckNum [of dest i] plain_lower [OF env]
    by (auto simp: plain_headers_def list_all_iff plain_env_def) (auto simp: plain_def)
  then have "plain_headers ?h" by (auto simp: plain_headers_def list_all_iff)
  with gm_ok_message body show ?thesis
    by (intro plain_wire) (auto simp: message_frame_def NewFrame_def body_bytes_def)
qed

section \<open>Connecting\<close>

definition connect_request :: "bool \<Rightarrow> ClientHandler \<Rightarrow> Frame" where
  "connect_request useStomp c = NewFrame (if useStomp then CmdStomp else CmdConnect) (connect_headers c) None"

definition offers_heartbeats :: "ClientHandler \<Rightarrow> bool" where
  "offers_heartbeats c \<longleftrightarrow> hbSendInterval c \<noteq> 0 \<or> hbRecvInterval c \<noteq> 0"

definition scheduler_ok :: "env \<Rightarrow> bool" where
  "scheduler_ok env \<longleftrightarrow> (\<forall>k i tag. \<exists>j. sched_do env k i tag = (Some j, None))"


lemma plain_valid: "plain s \<Longrightarrow> checkValidEscapes s"
  by (simp add: plain_def checkValidEscapes_plain)

lemma plain_fmt_hb: "plain (fmt_hb a b)"
  using fmt_hb_plain [of a b] by (auto simp: plain_def fmt_hb_def dest: not_in_itoa [THEN notE, rotated 2])

lemma connect_headers_eq:
  "connect_headers c = [(HdrKeyAcceptVersion, ''1.2''), (HdrKeyHost, c_host c)] @
     (if c_login c \<noteq> '''' then [(HdrKeyLogin, c_login c), (HdrKeyPassCode, c_passcode c)] else []) @
     (if offers_heartbeats c then [(HdrKeyHeartBeat, fmt_hb (hbSendInterval c) (hbRecvInterval c))] else [])"
  by (simp add: connect_headers_def offers_heartbeats_def Let_def)

lemma connect_request_ok:
  assumes "plain (c_host c)" and "plain (c_login c)" and "plain (c_passcode c)"
  shows "wire_ok (connect_request useStomp c)" and "Validate ClientFrame (connect_request useStomp c) = Ret ()"
    and "gm_ok (headers (connect_request useStomp c))"
proof -
  have "plain_headers (connect_headers c)"
    using assms plain_fmt_hb by (simp add: connect_headers_eq plain_headers_def) (simp add: plain_def)
  moreover have gm: "gm_ok (connect_headers c)" by (cases "c_login c = ''''"; simp add: connect_headers_eq)
  ultimately show "wire_ok (connect_request useStomp c)"
    by (intro plain_wire) (simp_all add: connect_request_def NewFrame_def body_bytes_def)
  from gm show "gm_ok (headers (connect_request useStomp c))" by (simp add: connect_request_def NewFrame_def)
  from assms plain_fmt_hb show "Validate ClientFrame (connect_request useStomp c) = Ret ()"
    by (simp add: Validate_client_iff connect_request_def conforms_def validationMap_def clientCmdSet_def
        NewFrame_def connect_headers_eq plain_valid checkValidEscapes_plain)
qed

lemma connect_sent:
  assumes "plain (c_host c)" and "plain (c_login c)" and "plain (c_passcode c)"
    and "deliver env (c_conn c) (serialize (connect_request useStomp c)) = None"
  shows "c_sent (fst (connect env useStomp c)) = c_sent c @ [serialize (connect_request useStomp c)]"
  using connect_request_ok(2) [OF assms(1-3), of useStomp] assms(4)
    write_client_sent [of env "serialize (connect_request useStomp c)" c]
  by (simp add: connect_def client_send_def connect_request_def)

lemma connect_same:
  "hbSendInterval (fst (connect env useStomp c)) = hbSendInterval c"
  "hbRecvInterval (fst (connect env useStomp c)) = hbRecvInterval c"
  "c_jobs (fst (connect env useStomp c)) = c_jobs c"
  by (simp_all add: connect_def client_send_def write_client_def Let_def split: outcome.splits prod.splits)

text \<open>Working in an offer succeeds when the scheduler takes the job, and makes one job at most.\<close>

lemma negotiate_ok:
  assumes "parseHbVal v = Ret (a, b)" and "scheduler_ok env"
  shows "snd (negotiateHeartbeats env sid v st) = Ret ()"
    and "sessionID (session_at (fst (negotiateHeartbeats env sid v st)) sid) = sessionID (session_at st sid)"
    and "map snd (jobs (fst (negotiateHeartbeats env sid v st))) = map snd (jobs st) @
      (if hb_send sid (fst (negotiateHeartbeats env sid v st)) \<noteq> 0 then [sid] else [])"
proof -
  have sched: "\<exists>j. sched_do env k i tag = (Some j, None)" for k i tag using assms(2) by (simp add: scheduler_ok_def)
  have s: "snd (schedule_heartbeats env sid st') = Ret () \<and>
      sessionID (session_at (fst (schedule_heartbeats env sid st')) sid) = sessionID (session_at st' sid) \<and>
      hb_send sid (fst (schedule_heartbeats env sid st')) = hb_send sid st' \<and>
      map snd (jobs (fst (schedule_heartbeats env sid st'))) = map snd (jobs st') @ [sid]" for st'
    using sched [of "njobs st'" "hb_send sid st'" "sessionID (session_at st' sid)"]
    by (auto simp: schedule_heartbeats_def Let_def update_session_def)
  show "snd (negotiateHeartbeats env sid v st) = Ret ()"
    "sessionID (session_at (fst (negotiateHeartbeats env sid v st)) sid) = sessionID (session_at st sid)"
    "map snd (jobs (fst (negotiateHeartbeats env sid v st))) = map snd (jobs st) @
      (if hb_send sid (fst (negotiateHeartbeats env sid v st)) \<noteq> 0 then [sid] else [])"
    using assms(1) by (simp_all add: negotiateHeartbeats_def Let_def s) (auto simp: update_session_def)
qed

lemma client_negotiate_ok:
  assumes "parseHbVal v = Ret (a, b)" and "scheduler_ok env"
  shows "snd (client_negotiateHeartbeats env v c) = Ret ()"
    and "length (c_jobs (fst (client_negotiateHeartbeats env v c))) =
      length (c_jobs c) + (if hbSendInterval (fst (client_negotiateHeartbeats env v c)) \<noteq> 0 then 1 else 0)"
proof -
  have sched: "\<exists>j. sched_do env k i tag = (Some j, None)" for k i tag using assms(2) by (simp add: scheduler_ok_def)
  have s: "snd (client_schedule env c') = Ret () \<and> length (c_jobs (fst (client_schedule env c'))) = Suc (length (c_jobs c'))
      \<and> hbSendInterval (fst (client_schedule env c')) = hbSendInterval c'" for c'
    using sched [of "c_njobs c'" "hbSendInterval c'" "SessionID c'"] by (auto simp: client_schedule_def Let_def)
  show "snd (client_negotiateHeartbeats env v c) = Ret ()"
    "length (c_jobs (fst (client_negotiateHeartbeats env v c))) =
      length (c_jobs c) + (if hbSendInterval (fst (client_negotiateHeartbeats env v c)) \<noteq> 0 then 1 else 0)"
    using assms(1) by (simp_all add: client_negotiateHeartbeats_def Let_def s)
qed

text \<open>The broker's part: the state \<open>st'\<close> before the answer is written, and the answer.\<close>

lemma broker_connects:
  assumes c: "plain (c_host c)" "plain (c_login c)" "plain (c_passcode c)"
    and login: "login_ok (session_at st sid) (connect_request useStomp c)"
    and s: "plain (sessionID (session_at st sid))" "plain (releaseVersion env)"
    and sched: "scheduler_ok env" and offer: "hb_offer (hbSendInterval c) (hbRecvInterval c)"
  obtains st' where "handle_raw env sid (serialize (connect_request useStomp c)) st =
      write_session env sid (serialize (connected_frame env (session_at st' sid))) st'"
    and "sessionID (session_at st' sid) = sessionID (session_at st sid)"
    and "if offers_heartbeats c
      then st' = fst (negotiateHeartbeats env sid (fmt_hb (hbSendInterval c) (hbRecvInterval c)) st) \<and>
        map snd (jobs st') = map snd (jobs st) @ (if hb_send sid st' \<noteq> 0 then [sid] else [])
      else st' = st"
proof -
  let ?f = "connect_request useStomp c" and ?v = "fmt_hb (hbSendInterval c) (hbRecvInterval c)"
  define st' where "st' = (if offers_heartbeats c then fst (negotiateHeartbeats env sid ?v st) else st)"
  note ok = connect_request_ok [OF c, of useStomp]
  have parse: "parseHbVal ?v = Ret (hbSendInterval c, hbRecvInterval c)"
    using offer by (simp add: hb_offer_def parseHbVal_fmt_hb)
  note neg = negotiate_ok [OF parse sched, of sid st]
  have "?v \<noteq> ''''" by (simp add: fmt_hb_def)
  moreover have "getHeader ?f HdrKeyHeartBeat = (if offers_heartbeats c then ?v else '''')"
    by (simp add: connect_request_def NewFrame_def getHeader_def connect_headers_eq)
  ultimately have hb: "connect_heartbeats env sid (normal ?f) st = (st', Ret ())"
    using neg(1) by (cases "negotiateHeartbeats env sid ?v st") (simp add: connect_heartbeats_def st'_def)
  have id: "sessionID (session_at st' sid) = sessionID (session_at st sid)" using neg(2) by (simp add: st'_def)
  have "accepts_12 (normal ?f)"
    by (simp add: accepts_12_def) (simp add: connect_request_def NewFrame_def getHeader_def connect_headers_eq)
  moreover have "login_ok (session_at st sid) (normal ?f)" using login by (simp add: login_ok_def split: option.splits)
  ultimately have "handleConnect env sid (normal ?f) st =
      write_session env sid (serialize (connected_frame env (session_at st' sid))) st'"
    using connect_accepted [OF _ _ hb] s by (simp add: id plain_valid)
  moreover have "handle_raw env sid (serialize ?f) st = handleConnect env sid (normal ?f) st"
    unfolding handle_raw_wire [OF ok(1,2)]
    by (rule stateMachine_connect) (simp add: connect_request_def NewFrame_def)
  ultimately show thesis using that [OF _ id] neg(3) by (simp add: st'_def)
qed

text \<open>The client's part, given an answer.\<close>

lemma connected_wire:
  assumes "plain (sessionID s)" and "plain (releaseVersion env)"
  shows "wire_ok (connected_frame env s)" and "Validate ServerFrame (connected_frame env s) = Ret ()"
proof -
  have "plain (''go-proto-stomp/'' @ releaseVersion env)" using assms(2) by (simp add: plain_def)
  with assms(1) plain_fmt_hb have "plain_headers (headers (connected_frame env s))"
    by (simp add: connected_frame_def NewFrame_def plain_headers_def) (simp add: plain_def)
  then show "wire_ok (connected_frame env s)"
    by (intro plain_wire) (simp_all add: connected_frame_def NewFrame_def body_bytes_def)
  show "Validate ServerFrame (connected_frame env s) = Ret ()"
    using assms by (intro connected_valid plain_valid)
qed

lemma client_connects:
  assumes "plain (sessionID s)" "sessionID s \<noteq> ''''" and "plain (releaseVersion env)"
  shows "client_raw env' (serialize (connected_frame env s)) c =
    client_negotiateHeartbeats env' (fmt_hb (hbSendIntervalMsec s) (hbRecvIntervalMsec s)) (c\<lparr>SessionID := sessionID s\<rparr>)"
proof -
  let ?f = "connected_frame env s"
  note ok = connected_wire [OF assms(1,3)]
  have "command ?f = CmdConnected" "getHeader ?f HdrKeySession = sessionID s"
    "getHeader ?f HdrKeyHeartBeat = fmt_hb (hbSendIntervalMsec s) (hbRecvIntervalMsec s)"
    by (simp_all add: connected_frame_def NewFrame_def getHeader_def)
  moreover have "fmt_hb a b \<noteq> ''''" for a b by (simp add: fmt_hb_def)
  ultimately show ?thesis
    using assms(2)
    by (simp add: client_raw_wire [OF ok] client_stateMachine_def handleConnected_def Let_def)
qed

text \<open>Both parts, and the two negotiations that they come down to.\<close>

lemma connect_exchange:
  assumes c: "plain (c_host c)" "plain (c_login c)" "plain (c_passcode c)"
    and login: "login_ok (session_at st sid) (connect_request useStomp c)"
    and s: "plain (sessionID (session_at st sid))" "sessionID (session_at st sid) \<noteq> ''''" "plain (releaseVersion env)"
    and sched: "scheduler_ok env" and offer: "hb_offer (hbSendInterval c) (hbRecvInterval c)"
    and net: "\<And>c b. deliver env c b = None" "deliver env' (c_conn c) (serialize (connect_request useStomp c)) = None"
    and c1: "c1 = fst (connect env' useStomp c)" and raw: "raw = last (c_sent c1)"
    and st': "st' = fst (handle_raw env sid raw st)" and raw': "raw' = last (sent_to st' sid)"
    and c': "c' = fst (client_raw env' raw' c1)"
  obtains st1 c2 where
    "hb_send sid st' = hb_send sid st1" "hb_recv sid st' = hb_recv sid st1" "jobs st' = jobs st1"
    "if offers_heartbeats c
     then st1 = fst (negotiateHeartbeats env sid (fmt_hb (hbSendInterval c) (hbRecvInterval c)) st) \<and>
       map snd (jobs st1) = map snd (jobs st) @ (if hb_send sid st1 \<noteq> 0 then [sid] else [])
     else st1 = st"
    "hbSendInterval c2 = hbSendInterval c" "hbRecvInterval c2 = hbRecvInterval c" "c_jobs c2 = c_jobs c"
    "c' = fst (client_negotiateHeartbeats env' (fmt_hb (hb_send sid st1) (hb_recv sid st1)) c2)"
proof -
  have raw: "raw = serialize (connect_request useStomp c)" using connect_sent [OF c net(2)] by (simp add: raw c1)
  obtain st1 where st1: "handle_raw env sid raw st =
      write_session env sid (serialize (connected_frame env (session_at st1 sid))) st1"
    and id: "sessionID (session_at st1 sid) = sessionID (session_at st sid)"
    and neg: "if offers_heartbeats c
      then st1 = fst (negotiateHeartbeats env sid (fmt_hb (hbSendInterval c) (hbRecvInterval c)) st) \<and>
        map snd (jobs st1) = map snd (jobs st) @ (if hb_send sid st1 \<noteq> 0 then [sid] else [])
      else st1 = st"
    unfolding raw by (rule broker_connects [OF c login s(1,3) sched offer])
  have same: "hb_send sid st' = hb_send sid st1" "hb_recv sid st' = hb_recv sid st1" "jobs st' = jobs st1"
    by (simp_all add: st' st1 write_session_def update_session_def split: prod.splits)
  have raw': "raw' = serialize (connected_frame env (session_at st1 sid))"
    using net(1) by (simp add: raw' st' st1 write_session_sent)
  let ?c2 = "c1\<lparr>SessionID := sessionID (session_at st1 sid)\<rparr>"
  have "c' = fst (client_negotiateHeartbeats env' (fmt_hb (hb_send sid st1) (hb_recv sid st1)) ?c2)"
    using client_connects [of "session_at st1 sid" env env' c1] s by (simp add: c' raw' id)
  moreover have "hbSendInterval ?c2 = hbSendInterval c" "hbRecvInterval ?c2 = hbRecvInterval c" "c_jobs ?c2 = c_jobs c"
    by (simp_all add: c1 connect_same)
  ultimately show thesis using that [OF same neg] by blast
qed

lemma offered_heartbeats:
  assumes offer: "hb_offer (hb_send sid st) (hb_recv sid st)" "hb_offer (hbSendInterval c) (hbRecvInterval c)"
    and st': "st' = fst (negotiateHeartbeats env sid (fmt_hb (hbSendInterval c) (hbRecvInterval c)) st)"
    and c': "c' = fst (client_negotiateHeartbeats env' (fmt_hb (hb_send sid st') (hb_recv sid st')) c)"
    and sched: "scheduler_ok env'"
  shows "hb_send sid st' = negotiated (hb_send sid st) (hbRecvInterval c) \<and> hbRecvInterval c' = hb_send sid st' \<and>
    hb_recv sid st' = negotiated (hb_recv sid st) (hbSendInterval c) \<and> hbSendInterval c' = hb_recv sid st' \<and>
    length (c_jobs c') = length (c_jobs c) + (if hbSendInterval c' \<noteq> 0 then 1 else 0)"
proof -
  note agree = handshake.agreement [OF offer st' c']
  then have "hb_send sid st' = negotiated (hb_send sid st) (hbRecvInterval c)"
    "hb_recv sid st' = negotiated (hb_recv sid st) (hbSendInterval c)" by blast+
  with offer have "parseHbVal (fmt_hb (hb_send sid st') (hb_recv sid st')) = Ret (hb_send sid st', hb_recv sid st')"
    by (simp add: hb_offer_def parseHbVal_fmt_hb negotiated_nonneg negotiated_int64)
  from client_negotiate_ok(2) [OF this sched, of c, folded c'] agree show ?thesis by simp
qed

lemma no_heartbeats_offered:
  assumes offer: "hb_offer a b" and none: "hbSendInterval c = 0" "hbRecvInterval c = 0"
    and c': "c' = fst (client_negotiateHeartbeats env' (fmt_hb a b) c)" and sched: "scheduler_ok env'"
  shows "hbSendInterval c' = 0 \<and> hbRecvInterval c' = 0 \<and> length (c_jobs c') = length (c_jobs c)"
proof -
  have parse: "parseHbVal (fmt_hb a b) = Ret (a, b)" using offer by (simp add: hb_offer_def parseHbVal_fmt_hb)
  from client_negotiate_ok(2) [OF parse sched, of c] client_hb.negotiate_ret [OF parse, of env' c] none
  show ?thesis by (simp add: c' negotiated_def)
qed

section \<open>From Send to the message handler\<close>

definition send_frame :: "string \<Rightarrow> string option \<Rightarrow> string \<Rightarrow> (string, string) gomap \<Rightarrow> Frame" where
  "send_frame dest bdy contentType customHeaders =
     NewFrame CmdSend (send_headers dest bdy contentType customHeaders) bdy"

lemma gm_ok_send: "gm_ok (headers (send_frame dest b ct custom))"
  unfolding send_frame_def NewFrame_def send_headers_def Frame.simps
  by (rule gm_ok_fold [where g = "\<lambda>k. k"]) simp

lemma Send_sent:
  assumes "Validate ClientFrame (send_frame dest b ct custom) = Ret ()"
    and "deliver env (c_conn c) (serialize (send_frame dest b ct custom)) = None"
  shows "snd (Send env dest b ct custom c) = Ret ()"
    and "c_sent (fst (Send env dest b ct custom c)) = c_sent c @ [serialize (send_frame dest b ct custom)]"
  using assms write_client_sent [of env "serialize (send_frame dest b ct custom)" c]
    write_client_result [of env "serialize (send_frame dest b ct custom)" c]
  by (simp_all add: Send_def client_send_def send_frame_def)

lemma handleMessage_handled:
  assumes "msgHandler c"
  shows "handled (fst (handleMessage env f c)) = handled c @ [getUserMessage f]"
proof -
  have "handled (fst (regardless (sendAck env i t c') (\<lambda>c. (c, Ret ())))) = handled c'" for i t c'
    by (rule regardless_fst)
      (cases rule: client_send_cases [of CmdAck _ None env c'],
        auto simp: sendAck_def Let_def client_send_def write_client_same split: outcome.splits)
  with assms show ?thesis
    by (auto simp: handleMessage_def Let_def send_ackCh_def split: option.splits)
qed

lemma getUserMessage_header:
  assumes "gm_ok (headers f)"
  shows "gm_get (Headers (getUserMessage f)) h = gm_get (headers f) h"
  by (simp add: getUserMessage_def gm_get_fold_set [OF assms] split: option.splits)

lemma gm_ok_normal: "gm_ok (headers f) \<Longrightarrow> gm_ok (headers (normal f))"
  by (simp add: normal_def getSortedHeaderKeys_def comp_def)

lemma client_receives:
  assumes "wire_ok f" and "Validate ServerFrame f = Ret ()" and "command f = CmdMessage" and "msgHandler c"
  obtains m where "handled (fst (client_raw env (serialize f) c)) = handled c @ [m]"
    and "Body m = (if body_bytes f = [] then None else Some (body_bytes f))"
    and "\<And>h. gm_get (Headers m) h = gm_get (headers f) h"
proof
  have "client_raw env (serialize f) c = handleMessage env (normal f) c"
    using client_raw_wire [OF assms(1,2)] assms(3) by (simp add: client_stateMachine_def)
  then show "handled (fst (client_raw env (serialize f) c)) = handled c @ [getUserMessage (normal f)]"
    using handleMessage_handled [OF assms(4)] by simp
  show "Body (getUserMessage (normal f)) = (if body_bytes f = [] then None else Some (body_bytes f))"
    by (simp add: getUserMessage_def normal_def)
  show "gm_get (Headers (getUserMessage (normal f))) h = gm_get (headers f) h" for h
    using assms(1) by (simp add: getUserMessage_header gm_ok_normal wire_ok_def map_of_normal)
qed

text \<open>The transaction header of a message that was sent in a transaction.\<close>

lemma tx_send_header:
  "gm_get (headers (send_frame dest b ct (tx_headers U txID hs))) HdrKeyTransaction = Some txID"
proof -
  have "gm_ok (tx_headers U txID hs)"
    unfolding tx_headers_def by (rule gm_ok_set) (rule gm_ok_fold, simp)
  moreover have "gm_get (tx_headers U txID hs) HdrKeyTransaction = Some txID" by (simp add: tx_headers_def)
  ultimately show ?thesis by (simp add: send_frame_def NewFrame_def send_headers_def gm_get_fold_set)
qed

text \<open>The broker, given the bytes of a SEND outside a transaction.\<close>

lemma broker_forwards:
  assumes inv: "core_inv st" and env: "env_ok env"
    and f: "wire_ok f" "Validate ClientFrame f = Ret ()" "command f = CmdSend"
      "getHeader f HdrKeyTransaction = ''''"
    and dest: "getHeader f HdrKeyDestination = dest" "dest \<noteq> ''''"
    and one: "subs_at (reg st) dest = [(i, info)]" and net: "\<And>c b. deliver env c b = None"
  shows "snd (handle_raw env sid (serialize f) st) = Ret ()"
    and "sent_to (fst (handle_raw env sid (serialize f) st)) s = sent_to st s @
      (if s = sessionHandler info
       then [serialize (message_frame env (uuids st) dest i (nextAckNum info) '''' (normal f))] else [])"
proof -
  have eq: "handle_raw env sid (serialize f) st = publish env (normal f) '''' st"
    using f(3,4) by (simp add: handle_raw_wire [OF f(1,2)] stateMachine_send)
  have valid: "valid_headers (headers (normal f))"
    using Validate_valid_headers [of ClientFrame "normal f"] Validate_normal(1) [of f] f by (simp add: wire_ok_def)
  note d = publish_delivered [OF inv env valid _ _ dest(2) one net]
  show "snd (handle_raw env sid (serialize f) st) = Ret ()"
    using d(1) [of "''''"] dest by (simp add: eq)
  show "sent_to (fst (handle_raw env sid (serialize f) st)) s = sent_to st s @
      (if s = sessionHandler info
       then [serialize (message_frame env (uuids st) dest i (nextAckNum info) '''' (normal f))] else [])"
    using d(2) [of "''''" s] dest by (simp add: eq message_bytes_def)
qed

text \<open>From the bytes of a SEND to the message handler of the subscriber.\<close>

lemma broker_to_handler:
  assumes inv: "core_inv st" and env: "env_ok env" "plain_env env" and net: "\<And>c b. deliver env c b = None"
    and f: "f = send_frame dest b ct custom" "Validate ClientFrame f = Ret ()" "plain_headers (headers f)"
      "CR \<notin> set (body_bytes f)" "getHeader f HdrKeyTransaction = ''''"
      "getHeader f HdrKeyDestination = dest" "dest \<noteq> ''''"
      "gm_ok (map (\<lambda>(k, v). (to_lower (unicode_lower env) k, v)) (headers (normal f)))"
    and sub: "subs_at (reg st) dest = [(i, info)]" "plain i"
    and link: "msgHandler c'"
    and raw: "raw = serialize f"
    and forwarded: "raw' = last (sent_to (fst (handle_raw env sid raw st)) (sessionHandler info))"
  shows "snd (handle_raw env sid raw st) = Ret () \<and>
    (\<exists>m. handled (fst (client_raw env'' raw' c')) = handled c' @ [m] \<and>
       Body m = (if body_bytes f = [] then None else Some (body_bytes f)) \<and>
       (\<forall>k. gm_get (headers f) k = None \<or>
          gm_get (Headers m) (to_lower (unicode_lower env) k) = gm_get (headers f) k))"
proof -
  have gm: "gm_ok (headers f)" unfolding f(1) by (rule gm_ok_send)
  have wire: "wire_ok f"
    by (rule plain_wire) (use f gm in \<open>auto simp: send_frame_def NewFrame_def\<close>)
  have cmd: "command f = CmdSend" by (simp add: f(1) send_frame_def NewFrame_def)
  let ?m = "message_frame env (uuids st) dest i (nextAckNum info) '''' (normal f)"
  note fwd = broker_forwards [OF inv env(1) wire f(2) cmd f(5,6,7) sub(1) net]
  have raw': "raw' = serialize ?m" using fwd(2) [of sid "sessionHandler info"] by (simp add: forwarded raw)
  have pn: "plain_headers (headers (normal f))"
    using f(3) by (simp add: plain_headers_def list_all_iff set_headers_normal [OF gm])
  have dest: "plain dest"
    using f(3,6,7) by (auto simp: getHeader_def plain_headers_def list_all_iff dest!: map_of_SomeD split: option.splits)
  have mwire: "wire_ok ?m"
    by (rule message_frame_wire [OF env(2) dest sub(2) _ pn]) (use f(4) in \<open>simp_all add: plain_def\<close>)
  have valid: "Validate ServerFrame ?m = Ret ()"
    using broker_message_valid [OF inv env(1) sub(1), of "normal f" "''''"] Validate_normal(1) [OF gm] f(2,6)
      Validate_valid_headers [of ClientFrame "normal f"] by simp
  have "command ?m = CmdMessage" by (simp add: message_frame_def NewFrame_def)
  from client_receives [OF mwire valid this link, of env''] obtain m where
    m: "handled (fst (client_raw env'' raw' c')) = handled c' @ [m]"
      "Body m = (if body_bytes ?m = [] then None else Some (body_bytes ?m))"
      "\<And>h. gm_get (Headers m) h = gm_get (headers ?m) h"
    unfolding raw' by blast
  have body: "body_bytes ?m = body_bytes f" by (simp add: message_frame_def NewFrame_def normal_def body_bytes_def)
  have hdr: "gm_get (headers f) k = None \<or>
      gm_get (Headers m) (to_lower (unicode_lower env) k) = gm_get (headers f) k" for k
  proof (cases "gm_get (headers f) k")
    case (Some v)
    then have "(k, v) \<in> set (headers (normal f))"
      using map_of_SomeD [of "headers (normal f)" k v] by (simp add: map_of_normal)
    with f(8) message_headers_sender [of "unicode_lower env"
        "range_over (range_order env (uuids st)) (headers (normal f))" k v] Some
    show ?thesis by (simp add: m(3) message_frame_def NewFrame_def)
  qed simp
  show ?thesis using fwd(1) m(1,2) body hdr raw by auto
qed

section \<open>A stream of messages to a client\<close>

lemma client_loop_queue:
  assumes "\<And>f. f \<in> set fs \<Longrightarrow> wire_ok f \<and> Validate ServerFrame f = Ret () \<and> command f = CmdMessage"
  shows "list_all (queues_ack c) fs \<Longrightarrow> length (ackCh c) \<le> ackCh_capacity \<Longrightarrow>
    snd (client_loop env (map serialize fs) c) =
      (if length (ackCh c) + length fs \<le> ackCh_capacity then Ret () else Block)"
  using assms
proof (induction fs arbitrary: c)
  case (Cons f fs)
  have f: "wire_ok f" "Validate ServerFrame f = Ret ()" "command f = CmdMessage"
    using Cons.prems(3) [of f] by simp_all
  have raw: "client_raw env (serialize f) c = handleMessage env (normal f) c"
    using client_raw_wire [OF f(1,2), of env c] f(3) by (simp add: client_stateMachine_def)
  have q: "queues_ack c (normal f)" using Cons.prems(1) by (simp add: queues_ack_def)
  obtain c' r where r: "handleMessage env (normal f) c = (c', r)" by fastforce
  have "queues_ack c' = queues_ack c"
    using handleMessage_queue(3) [OF q, of env] r by (simp add: queues_ack_def fun_eq_iff)
  with Cons handleMessage_queue(1,2) [OF q, of env] r raw show ?case
    by (cases "length (ackCh c) < ackCh_capacity") auto
qed simp

end
