(* ===== verification/Go_Fields.thy ===== *)
theory Go_Fields
  imports Go_Strings
begin

text \<open>
  White space as Go sees it: \<open>strings.TrimSpace\<close> and \<open>strings.Fields\<close> on strings of bytes in
  UTF-8 (valid or not), and \<open>strings.Join\<close>; what the shell makes of a command line.
\<close>

section \<open>White space\<close>

text \<open>
  The number of bytes of the rune at the head of a string when \<open>unicode.IsSpace\<close> holds of it,
  and 0 otherwise: the ASCII blanks, and U+0085, U+00A0, U+1680, U+2000 to U+200A, U+2028,
  U+2029, U+202F, U+205F and U+3000 in UTF-8. The first byte of each of them starts a rune
  wherever it stands, so that the functions below may look at any byte.
\<close>

definition space_bytes :: "nat list list" where
  "space_bytes =
     [[0xC2, 0x85], [0xC2, 0xA0], [0xE1, 0x9A, 0x80], [0xE2, 0x80, 0xA8], [0xE2, 0x80, 0xA9],
      [0xE2, 0x80, 0xAF], [0xE2, 0x81, 0x9F], [0xE3, 0x80, 0x80]] @
     map (\<lambda>n. [0xE2, 0x80, n]) [0x80..<0x8B]"

definition ascii_space :: "nat \<Rightarrow> bool" where
  "ascii_space n \<longleftrightarrow> 9 \<le> n \<and> n \<le> 13 \<or> n = 32"

fun lead_space :: "string \<Rightarrow> nat" where
  "lead_space [] = 0"
| "lead_space (x # xs) =
     (if ascii_space (of_char x) then 1
      else if (of_char x :: nat) < 128 then 0
      else if map of_char (take 2 (x # xs)) \<in> set space_bytes then 2
      else if map of_char (take 3 (x # xs)) \<in> set space_bytes then 3
      else 0)"

lemma lead_space_skip: "0 < lead_space s \<Longrightarrow> length s - lead_space s < length s"
  by (cases s) auto

declare lead_space.simps(2) [simp del]

text \<open>\<open>strings.TrimSpace\<close> and \<open>strings.Fields\<close>, and \<open>strings.Join\<close>.\<close>

function skip_space :: "string \<Rightarrow> string" where
  "skip_space s = (if lead_space s = 0 then s else skip_space (drop (lead_space s) s))"
  by auto
termination
  by (relation "measure length") (auto dest: lead_space_skip)

declare skip_space.simps [simp del]

fun trim_right :: "string \<Rightarrow> string" where
  "trim_right [] = []"
| "trim_right (x # xs) = (if skip_space (x # xs) = [] then [] else x # trim_right xs)"

definition trim_space :: "string \<Rightarrow> string" where
  "trim_space s = trim_right (skip_space s)"

fun take_field :: "string \<Rightarrow> string \<times> string" where
  "take_field [] = ([], [])"
| "take_field (x # xs) =
     (if lead_space (x # xs) \<noteq> 0 then ([], x # xs)
      else (case take_field xs of (w, r) \<Rightarrow> (x # w, r)))"

lemma skip_space_length: "length (skip_space s) \<le> length s"
proof (induction s rule: skip_space.induct)
  case (1 s)
  then show ?case using lead_space_skip [of s] by (subst skip_space.simps) auto
qed

lemma skip_space_lead: "lead_space (skip_space s) = 0"
proof (induction s rule: skip_space.induct)
  case (1 s)
  then show ?case by (subst skip_space.simps) auto
qed

lemma take_field_length: "length (snd (take_field s)) \<le> length s"
  by (induction s rule: take_field.induct) (auto split: prod.splits)

lemma take_field_rest:
  assumes "s = skip_space s0" and "s \<noteq> []"
  shows "length (snd (take_field s)) < length s0" and "fst (take_field s) \<noteq> []"
proof -
  obtain x xs where s: "s = x # xs" using assms(2) by (cases s) auto
  have "lead_space s = 0" using skip_space_lead [of s0] assms(1) by simp
  moreover have "length s \<le> length s0" using skip_space_length [of s0] assms(1) by simp
  ultimately show "length (snd (take_field s)) < length s0" "fst (take_field s) \<noteq> []"
    using take_field_length [of xs] by (auto simp: s split: prod.splits)
qed

function str_fields :: "string \<Rightarrow> string list" where
  "str_fields s =
     (let s' = skip_space s
      in if s' = [] then [] else fst (take_field s') # str_fields (snd (take_field s')))"
  by auto
termination
  by (relation "measure length") (auto simp: take_field_rest(1) [OF refl])

declare str_fields.simps [simp del]

fun join :: "string \<Rightarrow> string list \<Rightarrow> string" where
  "join sep [] = []"
| "join sep [s] = s"
| "join sep (s # ss) = s @ sep @ join sep ss"

lemma fields_not_Nil: "w \<in> set (str_fields s) \<Longrightarrow> w \<noteq> []"
proof (induction s rule: str_fields.induct)
  case (1 s)
  from 1(2) show ?case
    using take_field_rest(2) [OF refl, of s] 1(1) [OF refl]
    by (subst (asm) str_fields.simps) (auto simp: Let_def split: if_splits)
qed

text \<open>Words of printable ASCII that are joined by blanks are read back.\<close>

definition plain_word :: "string \<Rightarrow> bool" where
  "plain_word w \<longleftrightarrow> w \<noteq> [] \<and> list_all (\<lambda>c. 33 \<le> (of_char c :: nat) \<and> (of_char c :: nat) < 128) w"

lemma lead_space_plain: "33 \<le> (of_char x :: nat) \<Longrightarrow> (of_char x :: nat) < 128 \<Longrightarrow> lead_space (x # xs) = 0"
  by (simp add: ascii_space_def lead_space.simps)

lemma skip_space_plain: "plain_word w \<Longrightarrow> skip_space (w @ s) = w @ s"
  by (cases w) (auto simp: plain_word_def skip_space.simps [of "_ # _"] ascii_space_def lead_space.simps)

lemma skip_space_blank: "skip_space (CHR '' '' # s) = skip_space s"
  by (simp add: skip_space.simps [of "_ # _"] ascii_space_def lead_space.simps)

lemma take_field_plain:
  "list_all (\<lambda>c. 33 \<le> (of_char c :: nat) \<and> (of_char c :: nat) < 128) w \<Longrightarrow> s = [] \<or> lead_space s \<noteq> 0 \<Longrightarrow>
     take_field (w @ s) = (w, s)"
proof (induction w)
  case Nil
  then show ?case by (cases s) auto
qed (simp add: lead_space_plain)

lemma skip_space_Nil [simp]: "skip_space [] = []"
  by (subst skip_space.simps) simp

lemma fields_Nil [simp]: "str_fields [] = []"
  by (subst str_fields.simps) simp

lemma fields_blank: "str_fields (CHR '' '' # s) = str_fields s"
  by (subst (1 2) str_fields.simps) (simp only: skip_space_blank)

lemma fields_plain:
  assumes "plain_word w" and "s = [] \<or> lead_space s \<noteq> 0"
  shows "str_fields (w @ s) = w # str_fields s"
proof -
  have "w @ s \<noteq> []" using assms(1) by (simp add: plain_word_def)
  then show ?thesis
    using take_field_plain [OF _ assms(2), of w] assms(1)
    by (subst str_fields.simps) (simp add: skip_space_plain Let_def plain_word_def)
qed

lemma fields_join: "list_all plain_word ws \<Longrightarrow> str_fields (join '' '' ws) = ws"
proof (induction "'' ''" ws rule: join.induct)
  case (2 s)
  then show ?case using fields_plain [of s "[]"] by simp
next
  case (3 s t ts)
  then show ?case using fields_plain [of s "CHR '' '' # join '' '' (t # ts)"]
    by (simp add: fields_blank ascii_space_def lead_space.simps)
qed simp

text \<open>
  A continuation byte never starts white space, so trimming cuts at a rune boundary, and it
  does not change the fields.
\<close>

definition continuation :: "char \<Rightarrow> bool" where
  "continuation c \<longleftrightarrow> 0x80 \<le> (of_char c :: nat) \<and> (of_char c :: nat) < 0xC0"

lemma space_bytes_cont:
  "[a, b] \<in> set space_bytes \<Longrightarrow> 0x80 \<le> b \<and> b < 0xC0"
  "[a, b, c] \<in> set space_bytes \<Longrightarrow> 0x80 \<le> b \<and> b < 0xC0 \<and> 0x80 \<le> c \<and> c < 0xC0"
  "a # s \<in> set space_bytes \<Longrightarrow> 0xC0 \<le> a"
  by (auto simp: space_bytes_def)

lemma lead_space_cont: "continuation y \<Longrightarrow> lead_space (y # ys) = 0"
  using space_bytes_cont(3) [of "of_char y"]
  by (auto simp: lead_space.simps continuation_def ascii_space_def)

lemma trim_right_cont: "continuation y \<Longrightarrow> trim_right (y # ys) = y # trim_right ys"
  by (simp add: skip_space.simps [of "y # ys"] lead_space_cont)

lemma lead_space_trim: "lead_space (x # trim_right xs) = lead_space (x # xs)"
proof (cases xs)
  case (Cons y ys)
  show ?thesis
  proof (cases "continuation y")
    case True
    show ?thesis
    proof (cases ys)
      case (Cons z zs)
      show ?thesis
      proof (cases "continuation z")
        case False
        then have "[of_char x, of_char y, of_char z] \<notin> set space_bytes"
          using space_bytes_cont(2) by (fastforce simp: continuation_def)
        moreover have "trim_right ys = [] \<or> hd (trim_right ys) = z" by (simp add: Cons)
        ultimately show ?thesis
          using True \<open>xs = y # ys\<close> Cons
          by (cases "trim_right ys") (simp_all add: trim_right_cont lead_space.simps del: trim_right.simps(2))
      qed (use True \<open>xs = y # ys\<close> Cons in \<open>simp add: trim_right_cont lead_space.simps del: trim_right.simps\<close>)
    qed (use True \<open>xs = y # ys\<close> in \<open>simp add: trim_right_cont del: trim_right.simps(2)\<close>)
  next
    case False
    then have no: "of_char x # map of_char (take 1 (y # s)) \<notin> set space_bytes"
        "of_char x # map of_char (take 2 (y # s)) \<notin> set space_bytes" for s
      using space_bytes_cont(1,2) by (cases s; fastforce simp: continuation_def)+
    moreover have "[of_char x] \<notin> set space_bytes" by (auto simp: space_bytes_def)
    ultimately show ?thesis using Cons no [of "trim_right ys"] no [of ys] by (simp add: lead_space.simps)
  qed
qed simp

lemma drop_trim:
  assumes "lead_space s \<noteq> 0" and "skip_space s \<noteq> []"
  shows "drop (lead_space s) (trim_right s) = trim_right (drop (lead_space s) s)"
proof -
  obtain x xs where s: "s = x # xs" using assms(1) by (cases s) auto
  have trim: "trim_right s = x # trim_right xs" using assms(2) by (simp add: s)
  consider (one) "lead_space s = 1"
    | (two) y ys where "lead_space s = 2" "xs = y # ys" "continuation y"
    | (three) y z zs where "lead_space s = 3" "xs = y # z # zs" "continuation y" "continuation z"
  proof (cases xs)
    case Nil
    with assms(1) have "lead_space s = 1"
      by (auto simp: s lead_space.simps space_bytes_def split: if_splits)
    then show thesis by (rule one)
  next
    case (Cons y ys)
    then show thesis
      using assms(1) one two three space_bytes_cont(1) [of "of_char x" "of_char y"]
        space_bytes_cont(2) [of "of_char x" "of_char y"]
      by (cases ys) (auto simp: s lead_space.simps continuation_def split: if_splits)
  qed
  then show ?thesis
    using trim by cases (simp_all add: s trim_right_cont numeral_3_eq_3 del: trim_right.simps(2))
qed

lemma skip_trim: "skip_space (trim_right s) = trim_right (skip_space s)"
proof (induction s rule: skip_space.induct)
  case (1 s)
  show ?case
  proof (cases "s = [] \<or> skip_space s = []")
    case False
    then obtain x xs where s: "s = x # xs" by (cases s) auto
    with False have trim: "trim_right s = x # trim_right xs" by simp
    then have lead: "lead_space (trim_right s) = lead_space s" by (simp add: s lead_space_trim)
    show ?thesis
    proof (cases "lead_space s = 0")
      case True
      then show ?thesis using lead by (subst (1 2) skip_space.simps) simp
    next
      case nz: False
      then have "skip_space (trim_right s) = skip_space (drop (lead_space s) (trim_right s))"
        using lead by (subst skip_space.simps) simp
      also have "\<dots> = trim_right (skip_space (drop (lead_space s) s))"
        using drop_trim [OF nz] False 1 nz by simp
      also have "\<dots> = trim_right (skip_space s)"
        using nz by (subst (2) skip_space.simps) simp
      finally show ?thesis .
    qed
  qed (cases s, auto)
qed

lemma take_field_trim:
  "fst (take_field (trim_right s)) = fst (take_field s) \<and>
     snd (take_field (trim_right s)) = trim_right (snd (take_field s))"
proof (induction s)
  case (Cons x xs)
  show ?case
  proof (cases "skip_space (x # xs) = []")
    case True
    then have "lead_space (x # xs) \<noteq> 0" by (subst (asm) skip_space.simps) (auto split: if_splits)
    with True show ?thesis by simp
  next
    case False
    with Cons show ?thesis
      by (cases "take_field xs"; cases "take_field (trim_right xs)") (simp add: lead_space_trim)
  qed
qed simp

lemma fields_trim_right: "str_fields (trim_right s) = str_fields s"
proof (induction s rule: str_fields.induct)
  case (1 s)
  have "trim_right (skip_space s) = [] \<longleftrightarrow> skip_space s = []"
  proof (cases "skip_space s")
    case (Cons x xs)
    then have "lead_space (x # xs) = 0" using skip_space_lead [of s] by simp
    then have "skip_space (x # xs) = x # xs" by (subst skip_space.simps) simp
    with Cons show ?thesis by simp
  qed simp
  with 1 [OF refl] show ?case
    by (subst (1 2) str_fields.simps) (simp add: skip_trim take_field_trim Let_def)
qed

lemma fields_trim: "str_fields (trim_space s) = str_fields s"
proof -
  have "skip_space (skip_space s) = skip_space s"
    using skip_space_lead [of s] by (subst skip_space.simps) simp
  then have "str_fields (skip_space s) = str_fields s" by (subst (1 2) str_fields.simps) simp
  then show ?thesis by (simp add: trim_space_def fields_trim_right)
qed

lemma fields_empty_iff: "str_fields s = [] \<longleftrightarrow> skip_space s = []"
  by (subst str_fields.simps) (simp add: Let_def)

interpretation command_line: codec "join '' ''" "\<lambda>s. Some (str_fields (trim_space s))" "list_all plain_word"
  by unfold_locales (simp add: fields_trim fields_join)

end
