(* ===== verification/Stomper.thy ===== *)
theory Stomper
  imports Broker Client Go_Fields
begin

text \<open>
  The interactive client of \<^verbatim>\<open>cmd/stomper/stomper.go\<close>: the state behind the prompt, the
  handler of every command, and \<open>executor\<close>, which reads one line. The process is a machine over
  the lines that are entered and the frames that arrive for its clients.

  \<open>ctx\<close> is the record \<open>stateContext\<close>. A client is an index into the store \<open>clients\<close>, because a
  second \<open>connect\<close> replaces \<open>ctx.client\<close> while transactions and subscriptions keep pointing
  to the client that made them; \<open>None\<close> is the nil pointer. What the process prints is
  collected in \<open>printed\<close>, and \<open>exit_code\<close> is set when it has ended by itself.

  Parameters, in the record \<open>shell_env\<close>: the network below the clients (\<open>net\<close>, see Sessions),
  opening a connection (\<open>net_Dial\<close> and \<open>websocket_Dial\<close> for the attempt with that number, see
  Client; the remote address it gets), the parser of \<open>go-flags\<close> for the arguments of \<open>send\<close>, the escape
  sequences of the colour library, the table writer, the fuzzy filter of the prompt, and the
  value of the \<^verbatim>\<open>-t\<close> flag.
\<close>

section \<open>State\<close>

record send_opts =
  opt_Headers :: "string list"
  opt_File :: string
  opt_Dest :: string

record shell_env =
  net :: env
  transport :: string
  net_Dial :: "nat \<Rightarrow> string \<Rightarrow> go_error option"
  websocket_Dial :: "nat \<Rightarrow> string \<Rightarrow> go_error option"
  remote_Addr :: "nat \<Rightarrow> string"
  parse_args :: "string list \<Rightarrow> go_error + (send_opts \<times> string list)"
  keyPrint :: "string \<Rightarrow> string"
  valPrint :: "string \<Rightarrow> string"
  bodyPrint :: "string \<Rightarrow> string"
  tabwrite :: "(string \<times> string) list \<Rightarrow> string"
  filterFuzzy :: "(string \<times> string) list \<Rightarrow> string \<Rightarrow> (string \<times> string) list"

datatype printout = ErrPrint string | OkPrint string | InfoPrint string | Print string

record stateContext =
  messages :: "string list"
  currTxAlias :: string
  aliasToTx :: "(string, nat \<times> Transaction) gomap"
  client :: "nat option"
  destToSubs :: "(string, nat \<times> Subscription) gomap"
  clients :: "ClientHandler list"
  receiving :: "nat set"
  printed :: "printout list"
  sh_uuids :: nat
  sh_dials :: nat
  exit_code :: "int option"

definition init_ctx :: stateContext where
  "init_ctx =
     \<lparr>messages = [], currTxAlias = '''', aliasToTx = [], client = None, destToSubs = [], clients = [],
      receiving = {}, printed = [], sh_uuids = 0, sh_dials = 0, exit_code = None\<rparr>"

definition print_out :: "printout \<Rightarrow> stateContext \<Rightarrow> stateContext" where
  "print_out p ctx = ctx\<lparr>printed := printed ctx @ [p]\<rparr>"

definition sh_errorMsg :: "string \<Rightarrow> stateContext \<Rightarrow> stateContext" where
  "sh_errorMsg s ctx = print_out (ErrPrint s) ctx"

definition okMsg :: "string \<Rightarrow> stateContext \<Rightarrow> stateContext" where
  "okMsg s ctx = print_out (OkPrint s) ctx"

section \<open>Calls of the client\<close>

text \<open>
  A method of the client with index \<open>k\<close>; \<open>uuid.NewString\<close> is one source for the process, so
  its position is handed to the client and taken back.
\<close>

definition on_client ::
  "nat \<Rightarrow> (ClientHandler \<Rightarrow> ClientHandler \<times> 'a result) \<Rightarrow> stateContext \<Rightarrow> stateContext \<times> 'a result" where
  "on_client k g ctx =
     (case g ((clients ctx ! k)\<lparr>c_uuids := sh_uuids ctx\<rparr>) of
        (c, r) \<Rightarrow> (ctx\<lparr>clients := (clients ctx)[k := c], sh_uuids := c_uuids c\<rparr>, r))"

text \<open>
  \<open>ClientHandler.send\<close> on the nil client: the frame is validated first, and \<open>c.conn\<close> is read
  when it is to be written. A method of \<open>ctx.client\<close> runs on the client it points to, which
  is returned beside its result, or ends like \<open>nil\<close>.
\<close>

definition nil_send :: "Command \<Rightarrow> (Header, string) gomap \<Rightarrow> string option \<Rightarrow> 'a result" where
  "nil_send cmd h b =
     (case Validate ClientFrame (NewFrame cmd h b) of
        Ret _ \<Rightarrow> Panic NilDeref
      | Fail e \<Rightarrow> Fail e
      | Panic p \<Rightarrow> Panic p
      | Block \<Rightarrow> Block)"

definition on_ctx_client ::
  "(ClientHandler \<Rightarrow> ClientHandler \<times> 'a result) \<Rightarrow>
     (stateContext \<Rightarrow> stateContext \<times> (nat \<times> 'a) result) \<Rightarrow> stateContext \<Rightarrow>
     stateContext \<times> (nat \<times> 'a) result" where
  "on_ctx_client g nil ctx =
     (case client ctx of
        None \<Rightarrow> nil ctx
      | Some k \<Rightarrow> (case on_client k g ctx of (ctx', r) \<Rightarrow> (ctx', map_outcome id (Pair k) r)))"

text \<open>\<open>if err := f(); err != nil { errorMsg(err.Error()); return }\<close>, and the rest.\<close>

fun or_report ::
  "stateContext \<times> 'a result \<Rightarrow> ('a \<Rightarrow> stateContext \<Rightarrow> stateContext \<times> unit result) \<Rightarrow>
     stateContext \<times> unit result" where
  "or_report (ctx, Ret x) k = k x ctx"
| "or_report (ctx, Fail e) k = (sh_errorMsg (error_text e) ctx, Ret ())"
| "or_report (ctx, Panic p) k = (ctx, Panic p)"
| "or_report (ctx, Block) k = (ctx, Block)"

section \<open>Transactions\<close>

definition handleTxEnter :: "string list \<Rightarrow> stateContext \<Rightarrow> stateContext \<times> unit result" where
  "handleTxEnter args ctx =
     (if length args < 2 then (sh_errorMsg ''Must provide tx alias to enter'' ctx, Ret ())
      else (case gm_get (aliasToTx ctx) (args ! 1) of
              None \<Rightarrow> (sh_errorMsg ''No such tx alias present'' ctx, Ret ())
            | Some (_, tx) \<Rightarrow>
                (let ctx = ctx\<lparr>currTxAlias := args ! 1\<rparr>
                 in (okMsg (''Entering tx '' @ currTxAlias ctx @ '': '' @ TxID tx) ctx, Ret ()))))"

definition handleTxLeave :: "stateContext \<Rightarrow> stateContext \<times> unit result" where
  "handleTxLeave ctx = (okMsg ''Switched out of transaction'' (ctx\<lparr>currTxAlias := ''''\<rparr>), Ret ())"

definition handleTxBegin :: "shell_env \<Rightarrow> string list \<Rightarrow> stateContext \<Rightarrow> stateContext \<times> unit result" where
  "handleTxBegin E args ctx =
     (if length args < 2 then
        (sh_errorMsg ''Must provide a tx name as arg following the command. Usage: tx_being <tx alias>'' ctx, Ret ())
      else if currTxAlias ctx \<noteq> '''' then
        (sh_errorMsg (''Must leave current tx to start a new one. Use command '' @ sq ''tx_leave'') ctx, Ret ())
      else
        let alias = args ! 1
        in or_report
             (on_ctx_client (BeginTransaction (net E))
                (\<lambda>ctx. (ctx\<lparr>sh_uuids := Suc (sh_uuids ctx)\<rparr>,
                   nil_send CmdBegin [(HdrKeyTransaction, newUUID (net E) (sh_uuids ctx))] None)) ctx)
             (\<lambda>(k, tx) ctx.
               (okMsg (''Transaction began, '' @ alias @ '': '' @ TxID tx)
                  (ctx\<lparr>aliasToTx := gm_set alias (k, tx) (aliasToTx ctx), currTxAlias := alias\<rparr>), Ret ())))"

text \<open>
  A method that ends the transaction in the entry \<open>alias\<close>, which points to the client \<open>k\<close>.
\<close>

definition on_tx_entry ::
  "(Transaction \<Rightarrow> ClientHandler \<Rightarrow> (ClientHandler \<times> Transaction) \<times> unit result) \<Rightarrow>
     string \<Rightarrow> nat \<Rightarrow> Transaction \<Rightarrow> stateContext \<Rightarrow> stateContext \<times> unit result" where
  "on_tx_entry g alias k tx ctx =
     (case g tx (clients ctx ! k) of
        ((c, tx'), r) \<Rightarrow>
          (ctx\<lparr>clients := (clients ctx)[k := c], aliasToTx := gm_set alias (k, tx') (aliasToTx ctx)\<rparr>, r))"

definition handleTxCommit :: "shell_env \<Rightarrow> stateContext \<Rightarrow> stateContext \<times> unit result" where
  "handleTxCommit E ctx =
     (if currTxAlias ctx = '''' then (sh_errorMsg ''Not inside a transaction'' ctx, Ret ())
      else (case gm_get (aliasToTx ctx) (currTxAlias ctx) of
              None \<Rightarrow> (ctx, Panic NilDeref)
            | Some (k, tx) \<Rightarrow>
                or_report (on_tx_entry (CommitTransaction (net E)) (currTxAlias ctx) k tx ctx) (\<lambda>_ ctx.
                  let ctx = okMsg (''Transaction commit, '' @ currTxAlias ctx @ '':'' @ TxID tx) ctx
                  in (ctx\<lparr>aliasToTx := gm_del (currTxAlias ctx) (aliasToTx ctx), currTxAlias := ''''\<rparr>, Ret ()))))"

definition handleTxAbort :: "shell_env \<Rightarrow> stateContext \<Rightarrow> stateContext \<times> unit result" where
  "handleTxAbort E ctx =
     (if currTxAlias ctx = '''' then (sh_errorMsg ''Not inside a transaction'' ctx, Ret ())
      else (case gm_get (aliasToTx ctx) (currTxAlias ctx) of
              None \<Rightarrow> (ctx, Panic NilDeref)
            | Some (k, tx) \<Rightarrow>
                or_report (on_tx_entry (AbortTransaction (net E)) (currTxAlias ctx) k tx ctx) (\<lambda>_ ctx.
                  let ctx = okMsg (''Transaction aborted, '' @ currTxAlias ctx @ '':'' @ TxID tx) ctx
                  in (ctx\<lparr>aliasToTx := gm_del (currTxAlias ctx) (aliasToTx ctx), currTxAlias := ''''\<rparr>, Ret ()))))"

section \<open>The session, subscriptions\<close>

text \<open>\<open>fmt.Println\<close> of a label and a value, and of a label and a slice of strings.\<close>

definition info_line :: "string \<Rightarrow> string \<Rightarrow> printout" where
  "info_line label v = InfoPrint (label @ '' '' @ v)"

definition show_slice :: "string list \<Rightarrow> string" where
  "show_slice l = ''['' @ join '' '' l @ '']''"

definition showSessionInfo :: "stateContext \<Rightarrow> stateContext \<times> unit result" where
  "showSessionInfo ctx =
     (case client ctx of
        None \<Rightarrow> (ctx, Panic NilDeref)
      | Some k \<Rightarrow>
          (fold print_out
             [info_line ''Session ID:'' (SessionID (clients ctx ! k)),
              info_line ''Unread Messages:'' (itoa (int (length (messages ctx)))),
              info_line ''Subscriptions:'' (show_slice (gm_keys (destToSubs ctx))),
              info_line ''Current Transaction:'' (currTxAlias ctx),
              info_line ''Ongoing Transactions:'' (show_slice (gm_keys (aliasToTx ctx)))] ctx, Ret ()))"

definition handleUnsubscribe :: "shell_env \<Rightarrow> string list \<Rightarrow> stateContext \<Rightarrow> stateContext \<times> unit result" where
  "handleUnsubscribe E args ctx =
     (if length args < 2 then (sh_errorMsg ''Missing destination'' ctx, Ret ())
      else
        let dest = args ! 1
        in (case gm_get (destToSubs ctx) dest of
              None \<Rightarrow> (ctx, Panic NilDeref)
            | Some (k, subs) \<Rightarrow>
                or_report (on_client k (Unsubscribe (net E) subs) ctx) (\<lambda>_ ctx.
                  (okMsg (''Unsubscribed from '' @ dest) (ctx\<lparr>destToSubs := gm_del dest (destToSubs ctx)\<rparr>), Ret ()))))"

definition handleSubscribe :: "shell_env \<Rightarrow> string list \<Rightarrow> stateContext \<Rightarrow> stateContext \<times> unit result" where
  "handleSubscribe E args ctx =
     (if length args < 2 then (sh_errorMsg ''Missing destination'' ctx, Ret ())
      else
        let dest = args ! 1
        in or_report
             (on_ctx_client (Subscribe (net E) dest HdrValAckAuto)
                (\<lambda>ctx. (ctx\<lparr>sh_uuids := Suc (sh_uuids ctx)\<rparr>,
                   nil_send CmdSubscribe
                     [(HdrKeyID, newUUID (net E) (sh_uuids ctx)), (HdrKeyDestination, dest),
                      (HdrKeyAck, HdrValAckAuto)] None)) ctx)
             (\<lambda>(k, subs) ctx.
               (okMsg (''Subscribed to '' @ dest)
                  (ctx\<lparr>destToSubs := gm_set dest (k, subs) (destToSubs ctx)\<rparr>), Ret ())))"

section \<open>Reading and sending\<close>

text \<open>
  The line between two messages, 60 times U+2015. The loop prints the messages from index
  \<open>i\<close> on, or the first one only; \<open>poll\<close> is the index of the last one that was printed.
\<close>

definition ruler :: string where
  "ruler = concat (replicate 60 [CHR 0xE2, CHR 0x80, CHR 0x95])"

fun read_loop :: "bool \<Rightarrow> nat \<Rightarrow> string list \<Rightarrow> nat \<Rightarrow> stateContext \<Rightarrow> nat \<times> stateContext" where
  "read_loop all i [] poll ctx = (poll, ctx)"
| "read_loop all i (m # ms) poll ctx =
     (let ctx = print_out (Print ruler) (print_out (Print m) ctx)
      in if \<not> all then (i, ctx) else read_loop all (i + 1) ms i ctx)"

definition handleRead :: "string list \<Rightarrow> stateContext \<Rightarrow> stateContext \<times> unit result" where
  "handleRead args ctx =
     (if length (messages ctx) = 0 then (ctx, Ret ())
      else
        let all = (length args > 1 \<and> args ! 1 = ''-a'');
            (poll, ctx) = read_loop all 0 (messages ctx) 0 (print_out (Print ruler) ctx)
        in (ctx\<lparr>messages := drop (poll + 1) (messages ctx)\<rparr>, Ret ()))"

text \<open>The loop over the \<^verbatim>\<open>-h\<close> options; \<open>Inl\<close> is the faulty one.\<close>

fun option_headers :: "string list \<Rightarrow> (string, string) gomap \<Rightarrow> string + (string, string) gomap" where
  "option_headers [] h = Inr h"
| "option_headers (v # vs) h =
     (let kv = split_on COLON v
      in if length kv \<noteq> 2 then Inl v else option_headers vs (gm_set (kv ! 0) (kv ! 1) h))"

definition tx_option :: "stateContext \<Rightarrow> (string, string) gomap \<Rightarrow> (string, string) gomap result" where
  "tx_option ctx h =
     (if currTxAlias ctx \<noteq> '''' then
        (case gm_get (aliasToTx ctx) (currTxAlias ctx) of
           None \<Rightarrow> Panic NilDeref
         | Some (_, tx) \<Rightarrow> Ret (gm_set HdrKeyTransaction (TxID tx) h))
      else Ret h)"

definition send_message ::
  "shell_env \<Rightarrow> string \<Rightarrow> string list \<Rightarrow> (string, string) gomap \<Rightarrow> stateContext \<Rightarrow>
     stateContext \<times> unit result" where
  "send_message E dest args h ctx =
     (let bdy = Some (join '' '' args)
      in or_report
           (on_ctx_client (Send (net E) dest bdy ''plain/text'' h)
              (\<lambda>ctx. (ctx, nil_send CmdSend (send_headers dest bdy ''plain/text'' h) bdy)) ctx)
           (\<lambda>_ ctx. (okMsg ''Message sent'' ctx, Ret ())))"

definition handleSend :: "shell_env \<Rightarrow> string list \<Rightarrow> stateContext \<Rightarrow> stateContext \<times> unit result" where
  "handleSend E args ctx =
     (case parse_args E (drop 1 args) of
        Inl err \<Rightarrow> (sh_errorMsg (error_text err) ctx, Ret ())
      | Inr (opts, args) \<Rightarrow>
          if opt_Dest opts = '''' then (sh_errorMsg ''Missing destination'' ctx, Ret ())
          else
            (case option_headers (opt_Headers opts) [] of
               Inl v \<Rightarrow> (sh_errorMsg (''Faulty header: '' @ v @ '', must contain single '' @ sq '':'') ctx, Ret ())
             | Inr h \<Rightarrow>
                 (case tx_option ctx h of
                    Ret h \<Rightarrow> send_message E (opt_Dest opts) args h ctx
                  | Fail e \<Rightarrow> (ctx, Fail e)
                  | Panic p \<Rightarrow> (ctx, Panic p)
                  | Block \<Rightarrow> (ctx, Block))))"

section \<open>The texts of the prompt\<close>

definition suggestions :: "(string \<times> string) list" where
  "suggestions =
     [(''connect'', ''Connect to a STOMP broker''),
      (''disconnect'', ''Disconnect from the STOMP broker''),
      (''subscribe'', ''Subscribe to a destination on broker''),
      (''unsubscribe'', ''Unsubscribe from a destination on broker''),
      (''send'', ''Send a message to a destination on broker''),
      (''tx_leave'', ''Leave an ongoing transaction''),
      (''tx_enter'', ''Enter an ongoing transaction''),
      (''tx_begin'', ''Start a transaction''),
      (''tx_abort'', ''Abort the transaction''),
      (''tx_commit'', ''Commit the transaction''),
      (''session'', ''Show session info''),
      (''read'', ''Read received messages''),
      (''help'', ''Display commands help''),
      (''bye'', ''End session by disconnecting from the STOMP broker''),
      (''quit'', ''End session by disconnecting from the STOMP broker'')]"

definition headerSuggestions :: "(string \<times> string) list" where
  "headerSuggestions =
     [(''Accept'', ''Acceptable response media type''),
      (''Accept-Charset'', ''Acceptable response charsets''),
      (''Accept-Encoding'', ''Acceptable response content codings''),
      (''Accept-Language'', ''Preferred natural languages in response''),
      (''ALPN'', ''Application-layer protocol negotiation to use''),
      (''Alt-Used'', ''Alternative host in use''),
      (''Authorization'', ''Authentication information''),
      (''Cache-Control'', ''Directives for caches''),
      (''Connection'', ''Connection options''),
      (''Content-Encoding'', ''Content codings''),
      (''Content-Language'', ''Natural languages for content''),
      (''Content-Length'', ''Anticipated size for payload body''),
      (''Content-Location'', ''Where content was obtained''),
      (''Content-MD5'', ''Base64-encoded MD5 sum of content''),
      (''Content-Type'', ''Content media type''),
      (''Cookie'', ''Stored cookies''),
      (''Date'', ''Datetime when message was originated''),
      (''Depth'', ''Applied only to resource or its members''),
      (''DNT'', ''Do not track user''),
      (''Expect'', ''Expected behaviors supported by server''),
      (''Forwarded'', ''Proxies involved''),
      (''From'', ''Sender email address''),
      (''VirtualHost'', ''Target URI''),
      (''HTTP2-Settings'', ''HTTP/2 connection parameters''),
      (''If'', ''Request condition on state tokens and ETags''),
      (''If-Match'', ''Request condition on target resource''),
      (''If-Modified-Since'', ''Request condition on modification date''),
      (''If-None-Match'', ''Request condition on target resource''),
      (''If-Range'', ''Request condition on Range''),
      (''If-Schedule-Tag-Match'', ''Request condition on Schedule-Tag''),
      (''If-Unmodified-Since'', ''Request condition on modification date''),
      (''Max-Forwards'', ''Max number of times forwarded by proxies''),
      (''MIME-Version'', ''Version of MIME protocol''),
      (''Origin'', ''Origin(s} issuing the request''),
      (''Pragma'', ''Implementation-specific directives''),
      (''Prefer'', ''Preferred server behaviors''),
      (''Proxy-Authorization'', ''Proxy authorization credentials''),
      (''Proxy-Connection'', ''Proxy connection options''),
      (''Range'', ''Request transfer of only part of data''),
      (''Referer'', ''Previous web page''),
      (''TE'', ''Transfer codings willing to accept''),
      (''Transfer-Encoding'', ''Transfer codings applied to payload body''),
      (''Upgrade'', ''Invite server to upgrade to another protocol''),
      (''User-Agent'', ''User agent string''),
      (''Via'', ''Intermediate proxies''),
      (''Warning'', ''Possible incorrectness with payload body''),
      (''WWW-Authenticate'', ''Authentication scheme''),
      (''X-Csrf-Token'', ''Prevent cross-site request forgery''),
      (''X-CSRFToken'', ''Prevent cross-site request forgery''),
      (''X-Forwarded-For'', ''Originating client IP address''),
      (''X-Forwarded-VirtualHost'', ''Original host requested by client''),
      (''X-Forwarded-Proto'', ''Originating protocol''),
      (''X-Http-Method-Override'', ''Request method override''),
      (''X-Requested-With'', ''Used to identify Ajax requests''),
      (''X-XSRF-TOKEN'', ''Prevent cross-site request forgery'')]"

text \<open>\<open>showHelp\<close>; the table writer lines the two columns up.\<close>

definition showHelp :: "shell_env \<Rightarrow> stateContext \<Rightarrow> stateContext \<times> unit result" where
  "showHelp E ctx = (print_out (InfoPrint (tabwrite E suggestions)) ctx, Ret ())"

definition livePrefix :: "stateContext \<Rightarrow> string" where
  "livePrefix ctx =
     (let ps = ''stomper ['' @ itoa (int (length (messages ctx))) @ ''] '';
          ps = (if currTxAlias ctx \<noteq> '''' then ps @ ''tx:'' @ currTxAlias ctx @ '' '' else ps)
      in ps @ [CHR 0xE2, CHR 0x8B, CHR 0x99] @ ''  '')"

text \<open>
  The completion of the text before the cursor; \<open>word\<close> is the word at the cursor as the prompt
  library cuts it.
\<close>

definition completion :: "shell_env \<Rightarrow> string \<Rightarrow> string \<Rightarrow> (string \<times> string) list" where
  "completion E text word =
     (let args = str_fields (trim_space text);
          n = length args
      in if n = 1 then filterFuzzy E suggestions word
         else if n \<ge> 2 \<and> args ! 0 = ''send'' \<and> args ! (n - 1) = ''-'' then
           [(''-h'', ''Add custom header'')]
         else if n \<ge> 2 \<and> args ! 0 = ''send'' \<and> (args ! (n - 1) = ''-h'' \<or> args ! (n - 2) = ''-h'') then
           filterFuzzy E headerSuggestions word
         else if n \<ge> 2 \<and> args ! 0 = ''read'' \<and> args ! (n - 1) = ''-'' then
           [(''-a'', ''Read ALL messages'')]
         else [])"

section \<open>Connecting\<close>

text \<open>
  A new connection and its client become \<open>ctx.client\<close>; when the connection cannot be opened,
  \<open>log.Fatal\<close> ends the process.
\<close>

definition setupConnection :: "shell_env \<Rightarrow> string \<Rightarrow> string \<Rightarrow> string \<Rightarrow> stateContext \<Rightarrow> stateContext" where
  "setupConnection E host port t ctx =
     (let n = sh_dials ctx;
          ctx = ctx\<lparr>sh_dials := Suc n\<rparr>
      in case NewClientHandler (net_Dial E n) (websocket_Dial E n) (remote_Addr E n) t host port
             (Some \<lparr>VirtualHost = host, Login = '''', Passcode = '''', HeartbeatSendInterval = 0,
                    HeartbeatReceiveInterval = 0, MessageHandler = True\<rparr>) of
           Ret c \<Rightarrow> ctx\<lparr>client := Some (length (clients ctx)), clients := clients ctx @ [c]\<rparr>
         | _ \<Rightarrow> ctx\<lparr>exit_code := Some 1\<rparr>)"

text \<open>\<open>Connect(false)\<close> sends CONNECT and, when that succeeded, starts the receiving goroutine.\<close>

definition sh_handleConnect :: "shell_env \<Rightarrow> string list \<Rightarrow> stateContext \<Rightarrow> stateContext \<times> unit result" where
  "sh_handleConnect E args ctx =
     (if length args < 3 then (sh_errorMsg ''Missing host and port'' ctx, Ret ())
      else
        let t = (if transport E = ''websocket'' then TransportWebsocket else TransportTCP);
            ctx = setupConnection E (args ! 1) (args ! 2) t ctx
        in if exit_code ctx \<noteq> None then (ctx, Ret ())
           else or_report (on_ctx_client (connect (net E) False) (\<lambda>ctx. (ctx, Panic NilDeref)) ctx)
             (\<lambda>(k, _) ctx.
               (okMsg (''Connected to '' @ args ! 1 @ '':'' @ args ! 2)
                  (ctx\<lparr>receiving := insert k (receiving ctx)\<rparr>), Ret ())))"

definition handleDisconnect :: "shell_env \<Rightarrow> stateContext \<Rightarrow> stateContext \<times> unit result" where
  "handleDisconnect E ctx =
     or_report
       (on_ctx_client (Disconnect (net E))
          (\<lambda>ctx. (ctx, nil_send CmdDisconnect [(HdrKeyReceipt, disconnectID)] None)) ctx)
       (\<lambda>_ ctx. (ctx, Ret ()))"

section \<open>A line, a frame\<close>

definition executor :: "shell_env \<Rightarrow> string \<Rightarrow> stateContext \<Rightarrow> stateContext \<times> unit result" where
  "executor E line ctx =
     (if line = '''' then (ctx, Ret ())
      else
        let args = str_fields (trim_space line)
        in if args = [] then (ctx, Panic IndexOutOfRange)
           else
             let cmd = args ! 0
             in if cmd = ''session'' then showSessionInfo ctx
                else if cmd = ''send'' then handleSend E args ctx
                else if cmd = ''tx_begin'' then handleTxBegin E args ctx
                else if cmd = ''tx_abort'' then handleTxAbort E ctx
                else if cmd = ''tx_commit'' then handleTxCommit E ctx
                else if cmd = ''tx_leave'' then handleTxLeave ctx
                else if cmd = ''tx_enter'' then handleTxEnter args ctx
                else if cmd = ''subscribe'' then handleSubscribe E args ctx
                else if cmd = ''unsubscribe'' then handleUnsubscribe E args ctx
                else if cmd = ''connect'' then sh_handleConnect E args ctx
                else if cmd = ''read'' then handleRead args ctx
                else if cmd = ''help'' then showHelp E ctx
                else if cmd = ''disconnect'' \<or> cmd = ''bye'' \<or> cmd = ''quit'' then
                  and_then (handleDisconnect E ctx) (\<lambda>_ ctx.
                    ((print_out (InfoPrint ''See ya!'') ctx)\<lparr>exit_code := Some 0\<rparr>, Ret ()))
                else (ctx, Ret ()))"

text \<open>The message handler of \<open>setupConnection\<close>: the text of one message.\<close>

definition message_text :: "shell_env \<Rightarrow> UserMessage \<Rightarrow> string" where
  "message_text E m =
     concat (map (\<lambda>(k, v). keyPrint E k @ '':'' @ valPrint E v @ [LF]) (Headers m)) @
     bodyPrint E (case Body m of None \<Rightarrow> '''' | Some b \<Rightarrow> b)"

text \<open>
  The goroutine of client \<open>k\<close> handles a frame; what its message handler is called with is
  appended to the messages. On an error it removes the heart-beat job and ends; when it blocks
  it stays where it is.
\<close>

definition drop_job :: "ClientHandler \<Rightarrow> ClientHandler" where
  "drop_job c =
     (case c_hbJob c of
        None \<Rightarrow> c
      | Some j \<Rightarrow> c\<lparr>c_jobs := filter (\<lambda>j'. j' \<noteq> j) (c_jobs c)\<rparr>)"

definition receive :: "shell_env \<Rightarrow> nat \<Rightarrow> string \<Rightarrow> stateContext \<Rightarrow> stateContext \<times> unit result" where
  "receive E k raw ctx =
     (if k \<notin> receiving ctx then (ctx, Ret ())
      else
        case client_raw (net E) raw (clients ctx ! k) of
          (c, r) \<Rightarrow>
            let new = drop (length (handled (clients ctx ! k))) (handled c);
                ctx = ctx\<lparr>clients := (clients ctx)[k := c],
                          messages := messages ctx @ map (message_text E) new\<rparr>
            in (case r of
                  Ret _ \<Rightarrow> (ctx, Ret ())
                | Fail e \<Rightarrow>
                    (ctx\<lparr>clients := (clients ctx)[k := drop_job c], receiving := receiving ctx - {k}\<rparr>, Ret ())
                | Panic p \<Rightarrow> (ctx, Panic p)
                | Block \<Rightarrow> (ctx\<lparr>receiving := receiving ctx - {k}\<rparr>, Ret ())))"

datatype shell_event = Line string | Arrive nat string

fun shell_step :: "shell_env \<Rightarrow> shell_event \<Rightarrow> stateContext \<Rightarrow> stateContext \<times> unit result" where
  "shell_step E (Line line) ctx = (if exit_code ctx \<noteq> None then (ctx, Ret ()) else executor E line ctx)"
| "shell_step E (Arrive k raw) ctx = (if exit_code ctx \<noteq> None then (ctx, Ret ()) else receive E k raw ctx)"

end
