(* ===== verification/Stomper_Behaviour.thy ===== *)
theory Stomper_Behaviour
  imports Stomper
begin

text \<open>
  What holds of the shell of Stomper: its state never goes wrong (\<open>shell_inv\<close>, kept by every
  line and every frame), exactly which lines end it with a panic, and what the
  commands do.
\<close>

section \<open>The clients of the shell\<close>

text \<open>
  A client of the shell keeps the invariant of clients, calls the message handler, and neither
  offers nor schedules heart-beats.
\<close>

definition quiet :: "ClientHandler \<Rightarrow> bool" where
  "quiet c \<longleftrightarrow> hbSendInterval c = 0 \<and> hbRecvInterval c = 0 \<and> c_hbJob c = None \<and> c_jobs c = []"

definition client_ok :: "ClientHandler \<Rightarrow> bool" where
  "client_ok c \<longleftrightarrow> client_inv c \<and> quiet c \<and> msgHandler c"

text \<open>Two clients that differ in nothing that heart-beats and the message handler depend on.\<close>

definition same_duty :: "ClientHandler \<Rightarrow> ClientHandler \<Rightarrow> bool" where
  "same_duty c c' \<longleftrightarrow>
     hbSendInterval c' = hbSendInterval c \<and> hbRecvInterval c' = hbRecvInterval c \<and>
     c_hbJob c' = c_hbJob c \<and> c_jobs c' = c_jobs c \<and> msgHandler c' = msgHandler c"

lemma same_duty_refl [simp]: "same_duty c c"
  by (simp add: same_duty_def)

lemma same_duty_updates [simp]:
  "same_duty c (c'\<lparr>c_uuids := n\<rparr>) = same_duty c c'" "same_duty (c\<lparr>c_uuids := n\<rparr>) c' = same_duty c c'"
  "same_duty c (c'\<lparr>subsMap := m\<rparr>) = same_duty c c'" "same_duty c (c'\<lparr>c_conn := cn\<rparr>) = same_duty c c'"
  "same_duty c (c'\<lparr>handled := ms\<rparr>) = same_duty c c'" "same_duty c (c'\<lparr>ackCh := q\<rparr>) = same_duty c c'"
  "same_duty (c\<lparr>handled := ms\<rparr>) c' = same_duty c c'"
  by (simp_all add: same_duty_def)

lemma client_ok_duty: "client_ok c \<Longrightarrow> same_duty c c' \<Longrightarrow> client_inv c' \<Longrightarrow> client_ok c'"
  by (simp add: client_ok_def quiet_def same_duty_def)

lemma client_ok_uuids [simp]: "client_ok (c\<lparr>c_uuids := n\<rparr>) = client_ok c"
  by (simp add: client_ok_def quiet_def)

lemma write_client_duty: "same_duty c (fst (write_client env b c))"
  by (simp add: write_client_def split: prod.splits)

lemma client_send_duty: "same_duty c (fst (client_send env cmd h b c))"
  by (cases rule: client_send_cases [of cmd h b env c]) (simp_all add: write_client_duty)

lemma client_ok_send: "client_ok c \<Longrightarrow> client_ok (fst (client_send env cmd h b c))"
  by (rule client_ok_duty [OF _ client_send_duty]) (simp_all add: client_ok_def client_inv_send)

lemma client_ok_subscribe: "client_ok c \<Longrightarrow> client_ok (fst (Subscribe env d m c))"
proof -
  assume ok: "client_ok c"
  have "same_duty c (fst (Subscribe env d m c))"
    unfolding Subscribe_def Let_def
    by (rule and_then_fst) (simp_all add: client_send_duty [where c = "c\<lparr>c_uuids := n\<rparr>" for n, simplified])
  then show ?thesis
    by (rule client_ok_duty [OF ok]) (use ok in \<open>simp add: client_ok_def Subscribe_inv\<close>)
qed

lemma client_ok_begin: "client_ok c \<Longrightarrow> client_ok (fst (BeginTransaction env c))"
  unfolding BeginTransaction_def Let_def
  by (rule and_then_fst) (simp_all add: client_ok_send)

lemma client_ok_close:
  "client_ok c \<Longrightarrow> client_ok (fst (fst (CommitTransaction env t c)))"
  "client_ok c \<Longrightarrow> client_ok (fst (fst (AbortTransaction env t c)))"
  using client_ok_send [of c env]
  by (auto simp: AbortTransaction_def CommitTransaction_def split: prod.splits outcome.splits)
    (metis fst_conv)+

text \<open>A client that offers no heart-beats never gets any scheduled.\<close>

lemma client_negotiate_quiet: "quiet c \<Longrightarrow> quiet (fst (client_negotiateHeartbeats env v c))"
  by (auto simp: client_negotiateHeartbeats_def quiet_def Let_def split: outcome.splits)

lemma client_negotiate_handler: "msgHandler (fst (client_negotiateHeartbeats env v c)) = msgHandler c"
  by (auto simp: client_negotiateHeartbeats_def client_schedule_def Let_def
      split: outcome.splits prod.splits option.splits)

lemma client_ok_connected: "client_ok c \<Longrightarrow> client_ok (fst (handleConnected env f c))"
  using client_negotiate_quiet [of "c\<lparr>SessionID := s\<rparr>" for s]
  by (auto simp: client_ok_def handleConnected_inv)
    (auto simp: handleConnected_def Let_def client_negotiate_handler quiet_def)

lemma client_message_duty: "same_duty c (fst (handleMessage env f c))"
proof -
  have "same_duty c (fst (regardless (sendAck env i t c') (\<lambda>c. (c, Ret ()))))" if "same_duty c c'" for c' i t
  proof (rule regardless_fst)
    show "same_duty c (fst (sendAck env i t c'))"
      using client_send_duty [of c' env] that by (simp add: sendAck_def Let_def same_duty_def)
    then show "same_duty c (fst ((\<lambda>c. (c, Ret ())) (fst (sendAck env i t c'))))" by simp
  qed
  then show ?thesis
    by (auto simp: handleMessage_def send_ackCh_def Let_def split: option.splits)
qed

lemma client_ok_raw: "client_ok c \<Longrightarrow> client_ok (fst (client_raw env raw c))"
proof -
  assume ok: "client_ok c"
  have "client_ok (fst (client_stateMachine env f c))" for f
  proof -
    have "client_ok (fst (handleMessage env f c))"
      by (rule client_ok_duty [OF ok client_message_duty]) (use ok in \<open>simp add: client_ok_def handleMessage_inv\<close>)
    moreover have "client_ok (c\<lparr>c_conn := (c_conn c)\<lparr>conn_closed := True\<rparr>\<rparr>)"
      using ok by (simp add: client_ok_def quiet_def client_inv_def c_sent_def)
    ultimately show ?thesis
      using ok client_ok_connected [OF ok] client_ok_send [OF ok]
      by (simp add: client_stateMachine_def Disconnect_def)
  qed
  with ok show ?thesis by (simp add: client_raw_def split: outcome.splits)
qed

lemma drop_job_quiet: "client_ok c \<Longrightarrow> drop_job c = c"
  by (simp add: drop_job_def client_ok_def quiet_def)

lemma client_ok_new:
  "client_ok (client_over addr new_conn
     (Some \<lparr>VirtualHost = h, Login = '''', Passcode = '''', HeartbeatSendInterval = 0,
            HeartbeatReceiveInterval = 0, MessageHandler = True\<rparr>))"
  by (auto simp: client_ok_def client_inv_new new_conn_def) (auto simp: client_over_def quiet_def Let_def)

section \<open>The invariant\<close>

text \<open>
  No entry of the maps is a nil pointer or a closed transaction, the current transaction is
  one of them, subscriptions are filed under their destination, \<open>ctx.client\<close> is the
  client made last, and every client is as it should be.
\<close>

definition tx_entry_ok :: "nat \<Rightarrow> string \<times> nat \<times> Transaction \<Rightarrow> bool" where
  "tx_entry_ok n = (\<lambda>(alias, k, tx). k < n \<and> tx_open tx)"

definition subs_entry_ok :: "nat \<Rightarrow> string \<times> nat \<times> Subscription \<Rightarrow> bool" where
  "subs_entry_ok n = (\<lambda>(dest, k, s). k < n \<and> Destination s = dest \<and> subs_ackMode s = HdrValAckAuto)"

definition shell_inv :: "stateContext \<Rightarrow> bool" where
  "shell_inv ctx \<longleftrightarrow>
     gm_ok (aliasToTx ctx) \<and> gm_ok (destToSubs ctx) \<and>
     (currTxAlias ctx = '''' \<or> currTxAlias ctx \<in> set (gm_keys (aliasToTx ctx))) \<and>
     list_all (tx_entry_ok (length (clients ctx))) (aliasToTx ctx) \<and>
     list_all (subs_entry_ok (length (clients ctx))) (destToSubs ctx) \<and>
     client ctx = (if clients ctx = [] then None else Some (length (clients ctx) - 1)) \<and>
     receiving ctx \<subseteq> {..< length (clients ctx)} \<and>
     list_all client_ok (clients ctx)"

lemma shell_inv_init: "shell_inv init_ctx"
  by (simp add: shell_inv_def init_ctx_def)

lemma shell_inv_print [simp]:
  "shell_inv (print_out p ctx) = shell_inv ctx" "shell_inv (sh_errorMsg s ctx) = shell_inv ctx"
  "shell_inv (okMsg s ctx) = shell_inv ctx" "shell_inv (ctx\<lparr>exit_code := e\<rparr>) = shell_inv ctx"
  "shell_inv (ctx\<lparr>sh_uuids := n\<rparr>) = shell_inv ctx" "shell_inv (ctx\<lparr>messages := ms\<rparr>) = shell_inv ctx"
  "shell_inv (ctx\<lparr>sh_dials := n\<rparr>) = shell_inv ctx"
  by (simp_all add: shell_inv_def print_out_def sh_errorMsg_def okMsg_def)

lemma print_out_same [simp]:
  "clients (print_out p ctx) = clients ctx" "client (print_out p ctx) = client ctx"
  "aliasToTx (print_out p ctx) = aliasToTx ctx" "destToSubs (print_out p ctx) = destToSubs ctx"
  "currTxAlias (print_out p ctx) = currTxAlias ctx" "messages (print_out p ctx) = messages ctx"
  "receiving (print_out p ctx) = receiving ctx" "exit_code (print_out p ctx) = exit_code ctx"
  "printed (print_out p ctx) = printed ctx @ [p]" "sh_uuids (print_out p ctx) = sh_uuids ctx"
  by (simp_all add: print_out_def)

lemmas print_msg_defs = sh_errorMsg_def okMsg_def

lemma shell_inv_tx:
  "shell_inv ctx \<Longrightarrow> gm_get (aliasToTx ctx) a = Some (k, tx) \<Longrightarrow> k < length (clients ctx) \<and> tx_open tx"
  by (auto simp: shell_inv_def list_all_iff tx_entry_ok_def dest!: map_of_SomeD)

lemma shell_inv_subs:
  "shell_inv ctx \<Longrightarrow> gm_get (destToSubs ctx) d = Some (k, s) \<Longrightarrow>
     k < length (clients ctx) \<and> Destination s = d"
  by (auto simp: shell_inv_def list_all_iff subs_entry_ok_def dest!: map_of_SomeD)

lemma shell_inv_client: "shell_inv ctx \<Longrightarrow> client ctx = Some k \<Longrightarrow> k < length (clients ctx)"
  by (auto simp: shell_inv_def split: if_splits)

lemma shell_inv_client_ok: "shell_inv ctx \<Longrightarrow> k < length (clients ctx) \<Longrightarrow> client_ok (clients ctx ! k)"
  by (simp add: shell_inv_def list_all_length)

lemma shell_inv_put:
  "shell_inv ctx \<Longrightarrow> client_ok c \<Longrightarrow> shell_inv (ctx\<lparr>clients := (clients ctx)[k := c]\<rparr>)"
  using set_update_subset_insert [of "clients ctx" k c]
  by (auto simp: shell_inv_def list_all_iff)

lemma shell_inv_set_tx:
  "shell_inv ctx \<Longrightarrow> k < length (clients ctx) \<Longrightarrow> tx_open tx \<Longrightarrow>
     shell_inv (ctx\<lparr>aliasToTx := gm_set a (k, tx) (aliasToTx ctx)\<rparr>)"
  by (auto simp: shell_inv_def list_all_iff tx_entry_ok_def dom_update simp flip: dom_map_of_conv_image_fst
      dest!: gm_set_entries)

lemma shell_inv_add_tx:
  "shell_inv ctx \<Longrightarrow> k < length (clients ctx) \<Longrightarrow> tx_open tx \<Longrightarrow>
     shell_inv (ctx\<lparr>aliasToTx := gm_set a (k, tx) (aliasToTx ctx), currTxAlias := a\<rparr>)"
  by (auto simp: shell_inv_def list_all_iff tx_entry_ok_def dom_update simp flip: dom_map_of_conv_image_fst
      dest!: gm_set_entries)

lemma shell_inv_end_tx:
  "shell_inv ctx \<Longrightarrow> shell_inv (ctx\<lparr>aliasToTx := gm_del a (aliasToTx ctx), currTxAlias := ''''\<rparr>)"
  by (auto simp: shell_inv_def list_all_iff dest: gm_del_entries)

lemma shell_inv_curr:
  "shell_inv ctx \<Longrightarrow> a = '''' \<or> gm_get (aliasToTx ctx) a \<noteq> None \<Longrightarrow> shell_inv (ctx\<lparr>currTxAlias := a\<rparr>)"
  by (auto simp: shell_inv_def gm_get_None_iff)

lemma shell_inv_add_subs:
  "shell_inv ctx \<Longrightarrow> k < length (clients ctx) \<Longrightarrow> Destination s = d \<Longrightarrow> subs_ackMode s = HdrValAckAuto \<Longrightarrow>
     shell_inv (ctx\<lparr>destToSubs := gm_set d (k, s) (destToSubs ctx)\<rparr>)"
  by (auto simp: shell_inv_def list_all_iff subs_entry_ok_def dest!: gm_set_entries)

lemma shell_inv_del_subs: "shell_inv ctx \<Longrightarrow> shell_inv (ctx\<lparr>destToSubs := gm_del d (destToSubs ctx)\<rparr>)"
  by (auto simp: shell_inv_def list_all_iff dest: gm_del_entries)

lemma shell_inv_receiving:
  "shell_inv ctx \<Longrightarrow> k < length (clients ctx) \<Longrightarrow> shell_inv (ctx\<lparr>receiving := insert k (receiving ctx)\<rparr>)"
  "shell_inv ctx \<Longrightarrow> shell_inv (ctx\<lparr>receiving := receiving ctx - S\<rparr>)"
  by (auto simp: shell_inv_def)

section \<open>The invariant is kept\<close>

lemma or_report_inv:
  "shell_inv (fst r) \<Longrightarrow> (\<And>x. snd r = Ret x \<Longrightarrow> shell_inv (fst (k x (fst r)))) \<Longrightarrow>
     shell_inv (fst (or_report r k))"
  by (cases "(r, k)" rule: or_report.cases) auto

lemma on_client_inv:
  assumes "shell_inv ctx" and "k < length (clients ctx)"
    and "\<And>c. client_ok c \<Longrightarrow> client_ok (fst (g c))"
  shows "shell_inv (fst (on_client k g ctx))"
proof -
  obtain c r where g: "g ((clients ctx ! k)\<lparr>c_uuids := sh_uuids ctx\<rparr>) = (c, r)" by fastforce
  have "client_ok ((clients ctx ! k)\<lparr>c_uuids := sh_uuids ctx\<rparr>)"
    using shell_inv_client_ok [OF assms(1,2)] by simp
  from assms(3) [OF this] g have "client_ok c" by simp
  from shell_inv_put [OF assms(1) this] have "shell_inv (ctx\<lparr>clients := (clients ctx)[k := c], sh_uuids := c_uuids c\<rparr>)"
    using shell_inv_print(5) by blast
  then show ?thesis by (simp add: on_client_def g)
qed

lemma on_client_length [simp]: "length (clients (fst (on_client k g ctx))) = length (clients ctx)"
  by (simp add: on_client_def split: prod.splits)

lemma on_ctx_client_inv:
  assumes "shell_inv ctx" and "\<And>c. client_ok c \<Longrightarrow> client_ok (fst (g c))" and "shell_inv (fst (nil ctx))"
  shows "shell_inv (fst (on_ctx_client g nil ctx))"
proof (cases "client ctx")
  case (Some k)
  with on_client_inv [OF assms(1) shell_inv_client [OF assms(1) Some] assms(2)] show ?thesis
    by (simp add: on_ctx_client_def case_prod_beta)
qed (simp add: on_ctx_client_def assms(3))

text \<open>The client that \<open>on_ctx_client\<close> returns exists, and so does what the call returned.\<close>

lemma on_ctx_client_ret:
  assumes "shell_inv ctx" and "snd (on_ctx_client g nil ctx) = Ret (k, x)" and "\<not> is_ret (snd (nil ctx))"
  shows "client ctx = Some k \<and> k < length (clients (fst (on_ctx_client g nil ctx))) \<and>
    snd (g ((clients ctx ! k)\<lparr>c_uuids := sh_uuids ctx\<rparr>)) = Ret x"
proof (cases "client ctx")
  case (Some k')
  obtain ctx' r where r: "on_client k' g ctx = (ctx', r)" by fastforce
  with assms(2) Some have "r = Ret x" "k = k'"
    by (cases r; auto simp: on_ctx_client_def)+
  with r Some shell_inv_client [OF assms(1) Some] on_client_length [of k' g ctx] show ?thesis
    by (auto simp: on_ctx_client_def on_client_def split: prod.splits)
qed (use assms in \<open>auto simp: on_ctx_client_def\<close>)

lemma nil_send_not_ret [simp]: "\<not> is_ret (nil_send cmd h b)"
  using Validate_not_panic by (auto simp: nil_send_def split: outcome.splits)

lemma handleTxEnter_inv: "shell_inv ctx \<Longrightarrow> shell_inv (fst (handleTxEnter args ctx))"
  by (auto simp: handleTxEnter_def Let_def shell_inv_curr split: option.splits)

lemma handleTxLeave_inv: "shell_inv ctx \<Longrightarrow> shell_inv (fst (handleTxLeave ctx))"
  by (simp add: handleTxLeave_def shell_inv_curr)

lemma BeginTransaction_open: "snd (BeginTransaction env c) = Ret tx \<Longrightarrow> tx_open tx"
  by (auto simp: BeginTransaction_def Let_def and_then_eq split: outcome.splits)

lemma Subscribe_result:
  "snd (Subscribe env d m c) = Ret s \<Longrightarrow>
     Destination s = d \<and> subs_ackMode s = (if m = '''' then HdrValAckAuto else m)"
  by (auto simp: Subscribe_def Let_def and_then_eq split: outcome.splits)

lemma handleTxBegin_inv:
  assumes inv: "shell_inv ctx"
  shows "shell_inv (fst (handleTxBegin E args ctx))"
proof -
  let ?nil = "\<lambda>ctx. (ctx\<lparr>sh_uuids := Suc (sh_uuids ctx)\<rparr>,
    nil_send CmdBegin [(HdrKeyTransaction, newUUID (net E) (sh_uuids ctx))] None)"
  let ?call = "on_ctx_client (BeginTransaction (net E)) ?nil ctx"
  have call: "shell_inv (fst ?call)"
    by (rule on_ctx_client_inv [OF inv]) (simp_all add: client_ok_begin inv)
  have "shell_inv ((fst ?call)\<lparr>aliasToTx := gm_set a (k, tx) (aliasToTx (fst ?call)), currTxAlias := a\<rparr>)"
    if "snd ?call = Ret (k, tx)" for a k tx
    using on_ctx_client_ret [OF inv that] by (auto intro!: shell_inv_add_tx [OF call] BeginTransaction_open)
  then show ?thesis
    unfolding handleTxBegin_def Let_def
    by (auto simp: inv intro!: or_report_inv call split: prod.splits)
qed

lemma handleSubscribe_inv:
  assumes inv: "shell_inv ctx"
  shows "shell_inv (fst (handleSubscribe E args ctx))"
proof -
  let ?nil = "\<lambda>d ctx. (ctx\<lparr>sh_uuids := Suc (sh_uuids ctx)\<rparr>,
    nil_send CmdSubscribe [(HdrKeyID, newUUID (net E) (sh_uuids ctx)), (HdrKeyDestination, d),
      (HdrKeyAck, HdrValAckAuto)] None)"
  let ?call = "\<lambda>d. on_ctx_client (Subscribe (net E) d HdrValAckAuto) (?nil d) ctx"
  have call: "shell_inv (fst (?call d))" for d
    by (rule on_ctx_client_inv [OF inv]) (simp_all add: client_ok_subscribe inv)
  have "shell_inv ((fst (?call d))\<lparr>destToSubs := gm_set d (k, s) (destToSubs (fst (?call d)))\<rparr>)"
    if ret: "snd (?call d) = Ret (k, s)" for d k s
  proof -
    have k: "k < length (clients (fst (?call d)))"
      and s: "snd (Subscribe (net E) d HdrValAckAuto ((clients ctx ! k)\<lparr>c_uuids := sh_uuids ctx\<rparr>)) = Ret s"
      using on_ctx_client_ret [OF inv ret] by auto
    from Subscribe_result [OF s] show ?thesis
      by (intro shell_inv_add_subs [OF call k]) simp_all
  qed
  then show ?thesis
    unfolding handleSubscribe_def Let_def
    by (auto simp: inv intro!: or_report_inv call split: prod.splits)
qed

lemma handleUnsubscribe_inv:
  assumes inv: "shell_inv ctx"
  shows "shell_inv (fst (handleUnsubscribe E args ctx))"
proof -
  have "shell_inv (fst (on_client k (Unsubscribe (net E) s) ctx))" if "k < length (clients ctx)" for k s
    by (rule on_client_inv [OF inv that]) (simp add: Unsubscribe_def client_ok_send)
  then show ?thesis
    using shell_inv_subs [OF inv]
    unfolding handleUnsubscribe_def Let_def
    by (auto simp: inv intro!: or_report_inv shell_inv_del_subs split: option.splits prod.splits)
qed

lemma on_tx_entry_inv:
  assumes inv: "shell_inv ctx" and tx: "gm_get (aliasToTx ctx) a = Some (k, tx)" and a: "currTxAlias ctx = a"
    and g: "\<And>c. client_ok c \<Longrightarrow> client_ok (fst (fst (g tx c)))"
    and kept: "\<And>c. snd (g tx c) \<noteq> Ret () \<Longrightarrow> snd (fst (g tx c)) = tx"
  shows "snd (on_tx_entry g a k tx ctx) \<noteq> Ret () \<Longrightarrow> shell_inv (fst (on_tx_entry g a k tx ctx))"
    and "shell_inv ((fst (on_tx_entry g a k tx ctx))
      \<lparr>aliasToTx := gm_del a (aliasToTx (fst (on_tx_entry g a k tx ctx))), currTxAlias := ''''\<rparr>)"
proof -
  obtain c tx' r where r: "g tx (clients ctx ! k) = ((c, tx'), r)" by (metis surj_pair)
  have k: "k < length (clients ctx)" "tx_open tx" using shell_inv_tx [OF inv tx] by auto
  have "client_ok c" using g [OF shell_inv_client_ok [OF inv k(1)]] r by simp
  from shell_inv_put [OF inv this, of k] have put: "shell_inv (ctx\<lparr>clients := (clients ctx)[k := c]\<rparr>)" .
  have "gm_del a (gm_set a (k, tx') (aliasToTx ctx)) = gm_del a (aliasToTx ctx)"
    by simp
  with shell_inv_end_tx [OF put, of a]
  show "shell_inv ((fst (on_tx_entry g a k tx ctx))
      \<lparr>aliasToTx := gm_del a (aliasToTx (fst (on_tx_entry g a k tx ctx))), currTxAlias := ''''\<rparr>)"
    by (simp add: on_tx_entry_def r)
  assume "snd (on_tx_entry g a k tx ctx) \<noteq> Ret ()"
  then have "tx' = tx" using kept [of "clients ctx ! k"] r by (simp add: on_tx_entry_def)
  with shell_inv_set_tx [OF put, of k tx a] k
  show "shell_inv (fst (on_tx_entry g a k tx ctx))" by (simp add: on_tx_entry_def r)
qed

lemma close_transaction_kept:
  "snd (CommitTransaction env tx c) \<noteq> Ret () \<Longrightarrow> snd (fst (CommitTransaction env tx c)) = tx"
  "snd (AbortTransaction env tx c) \<noteq> Ret () \<Longrightarrow> snd (fst (AbortTransaction env tx c)) = tx"
  by (auto simp: CommitTransaction_def AbortTransaction_def split: if_splits prod.splits outcome.splits)

lemma print_out_ended:
  "(print_out p ctx)\<lparr>aliasToTx := m, currTxAlias := a\<rparr> = print_out p (ctx\<lparr>aliasToTx := m, currTxAlias := a\<rparr>)"
  by (simp add: print_out_def)

lemma end_report_inv:
  assumes "snd r \<noteq> Ret () \<Longrightarrow> shell_inv (fst r)" and "currTxAlias (fst r) = a"
    and "shell_inv ((fst r)\<lparr>aliasToTx := gm_del a (aliasToTx (fst r)), currTxAlias := ''''\<rparr>)"
  shows "shell_inv (fst (or_report r (\<lambda>_ ctx. let ctx = okMsg (m ctx) ctx
    in (ctx\<lparr>aliasToTx := gm_del (currTxAlias ctx) (aliasToTx ctx), currTxAlias := ''''\<rparr>, Ret ()))))"
  using assms by (cases r; cases "snd r") (simp_all add: okMsg_def print_out_ended Let_def)

lemma handleTxEnd_inv:
  assumes inv: "shell_inv ctx"
  shows "shell_inv (fst (handleTxCommit E ctx))" and "shell_inv (fst (handleTxAbort E ctx))"
proof -
  have "currTxAlias (fst (on_tx_entry g a k tx ctx)) = currTxAlias ctx" for g a k tx
    by (simp add: on_tx_entry_def split: prod.splits)
  note curr = this
    and commit = on_tx_entry_inv [OF inv _ refl, where g = "CommitTransaction (net E)",
        OF _ client_ok_close(1) close_transaction_kept(1)]
    and abort = on_tx_entry_inv [OF inv _ refl, where g = "AbortTransaction (net E)",
        OF _ client_ok_close(2) close_transaction_kept(2)]
  show "shell_inv (fst (handleTxCommit E ctx))"
    unfolding handleTxCommit_def
    by (auto simp: inv split: option.split intro!: end_report_inv [OF _ curr] commit)
  show "shell_inv (fst (handleTxAbort E ctx))"
    unfolding handleTxAbort_def
    by (auto simp: inv split: option.split intro!: end_report_inv [OF _ curr] abort)
qed

lemma read_loop_same:
  "snd (read_loop all i ms poll ctx) = ctx\<lparr>printed := printed ctx @
     concat (map (\<lambda>m. [Print m, Print ruler]) (if all then ms else take 1 ms))\<rparr>"
  by (induction all i ms poll ctx rule: read_loop.induct) (simp_all add: print_out_def Let_def)

lemma handleRead_inv: "shell_inv ctx \<Longrightarrow> shell_inv (fst (handleRead args ctx))"
proof -
  have "shell_inv (ctx\<lparr>printed := p\<rparr>) = shell_inv ctx" for p ctx by (simp add: shell_inv_def)
  moreover assume "shell_inv ctx"
  ultimately have "shell_inv (snd (read_loop all 0 ms 0 (print_out p ctx)))" for all ms p
    by (simp add: read_loop_same)
  then show "shell_inv (fst (handleRead args ctx))"
    using \<open>shell_inv ctx\<close> by (simp add: handleRead_def Let_def case_prod_beta)
qed

lemma send_message_inv: "shell_inv ctx \<Longrightarrow> shell_inv (fst (send_message E dest args h ctx))"
  unfolding send_message_def Let_def
  by (auto intro!: or_report_inv on_ctx_client_inv simp: Send_def client_ok_send)

lemma handleSend_inv: "shell_inv ctx \<Longrightarrow> shell_inv (fst (handleSend E args ctx))"
  by (auto simp: handleSend_def send_message_inv split: sum.splits outcome.splits)

lemma setupConnection_inv: "shell_inv ctx \<Longrightarrow> shell_inv (setupConnection E host port t ctx)"
  by (auto simp: setupConnection_def Let_def shell_inv_def list_all_iff tx_entry_ok_def subs_entry_ok_def
      client_ok_new dest!: NewClientHandler_Ret split: outcome.splits)

lemma sh_handleConnect_inv: "shell_inv ctx \<Longrightarrow> shell_inv (fst (sh_handleConnect E args ctx))"
proof -
  assume inv: "shell_inv ctx"
  define ctx' where
    "ctx' = setupConnection E (args ! 1) (args ! 2)
       (if transport E = ''websocket'' then TransportWebsocket else TransportTCP) ctx"
  let ?call = "on_ctx_client (connect (net E) False) (\<lambda>ctx. (ctx, Panic NilDeref)) ctx'"
  have inv': "shell_inv ctx'" unfolding ctx'_def by (rule setupConnection_inv [OF inv])
  have call: "shell_inv (fst ?call)"
    by (rule on_ctx_client_inv [OF inv']) (simp_all add: connect_def client_ok_send inv')
  have "shell_inv ((fst ?call)\<lparr>receiving := insert k (receiving (fst ?call))\<rparr>)"
    if "snd ?call = Ret (k, x)" for k x
    using on_ctx_client_ret [OF inv' that] by (auto intro: shell_inv_receiving(1) [OF call])
  then show ?thesis
    unfolding sh_handleConnect_def ctx'_def [symmetric] Let_def
    by (auto simp: inv inv' intro!: or_report_inv call split: prod.splits)
qed

lemma handleDisconnect_inv: "shell_inv ctx \<Longrightarrow> shell_inv (fst (handleDisconnect E ctx))"
  unfolding handleDisconnect_def
  by (auto intro!: or_report_inv on_ctx_client_inv simp: Disconnect_def client_ok_send)

lemma showSessionInfo_inv: "shell_inv ctx \<Longrightarrow> shell_inv (fst (showSessionInfo ctx))"
  by (simp add: showSessionInfo_def split: option.splits)

lemmas handlers_inv = handleTxEnter_inv handleTxLeave_inv handleTxBegin_inv handleTxEnd_inv
  handleSubscribe_inv handleUnsubscribe_inv handleRead_inv handleSend_inv sh_handleConnect_inv
  handleDisconnect_inv showSessionInfo_inv

lemma executor_inv: "shell_inv ctx \<Longrightarrow> shell_inv (fst (executor E line ctx))"
proof -
  assume inv: "shell_inv ctx"
  have "shell_inv (fst (and_then (handleDisconnect E ctx) (\<lambda>_ ctx.
      ((print_out p ctx)\<lparr>exit_code := x\<rparr>, Ret ()))))" for p x
    by (rule and_then_fst) (simp_all add: handlers_inv inv)
  with inv show ?thesis
    unfolding executor_def Let_def by (simp add: handlers_inv showHelp_def)
qed

lemma receive_inv: "shell_inv ctx \<Longrightarrow> shell_inv (fst (receive E k raw ctx))"
proof -
  assume inv: "shell_inv ctx"
  show ?thesis
  proof (cases "k \<in> receiving ctx")
    case True
    obtain c r where r: "client_raw (net E) raw (clients ctx ! k) = (c, r)" by fastforce
    have "k < length (clients ctx)" using inv True by (auto simp: shell_inv_def)
    from client_ok_raw [OF shell_inv_client_ok [OF inv this], of "net E" raw] r have c: "client_ok c" by simp
    let ?ctx' = "ctx\<lparr>clients := (clients ctx)[k := c], messages := messages ctx @
      map (message_text E) (drop (length (handled (clients ctx ! k))) (handled c))\<rparr>"
    have inv': "shell_inv ?ctx'" using shell_inv_put [OF inv c, of k] shell_inv_print(6) by blast
    with shell_inv_receiving(2) [OF inv', of "{k}"] r True show ?thesis
      by (cases r; simp add: receive_def Let_def drop_job_quiet [OF c]) (simp add: shell_inv_def)
  qed (simp add: receive_def inv)
qed

interpretation shell_machine: machine "shell_step E" shell_inv "\<lambda>_. True" for E
proof
  fix ctx x
  assume "shell_inv ctx"
  then show "shell_inv (fst (shell_step E x ctx))" by (cases x) (simp_all add: executor_inv receive_inv)
qed

section \<open>Panics\<close>

lemma is_panic_map [simp]: "is_panic (map_outcome f g r) = is_panic r"
  by (cases r) simp_all

lemma client_send_no_panic [simp]: "\<not> is_panic (snd (client_send env cmd h b c))"
  by (cases rule: client_send_cases [of cmd h b env c]) (simp_all add: write_client_result split: option.splits)

lemma call_then_no_panic:
  "\<not> is_panic (snd r) \<Longrightarrow> (\<And>x s. \<not> is_panic (snd (k x s))) \<Longrightarrow> \<not> is_panic (snd (and_then r k))"
  by (cases "(r, k)" rule: and_then.cases) simp_all

lemma client_ops_no_panic [simp]:
  "\<not> is_panic (snd (Unsubscribe env s c))" "\<not> is_panic (snd (connect env u c))"
  "\<not> is_panic (snd (Send env d b t h c))" "\<not> is_panic (snd (Disconnect env c))"
  by (simp_all add: Unsubscribe_def connect_def Send_def Disconnect_def)

lemma client_creates_no_panic [simp]:
  "\<not> is_panic (snd (Subscribe env d m c))" "\<not> is_panic (snd (BeginTransaction env c))"
  unfolding Subscribe_def BeginTransaction_def Let_def
  by (rule call_then_no_panic; simp)+

lemma client_ends_no_panic [simp]:
  "\<not> is_panic (snd (CommitTransaction env tx c))" "\<not> is_panic (snd (AbortTransaction env tx c))"
proof -
  obtain c1 r1 where c: "client_send env CmdCommit [(HdrKeyTransaction, TxID tx)] None c = (c1, r1)" by fastforce
  obtain c2 r2 where a: "client_send env CmdAbort [(HdrKeyTransaction, TxID tx)] None c = (c2, r2)" by fastforce
  have r: "\<not> is_panic r1" "\<not> is_panic r2"
    using client_send_no_panic c a by (metis snd_conv)+
  show "\<not> is_panic (snd (CommitTransaction env tx c))"
    unfolding CommitTransaction_def c using r(1) by (cases r1) simp_all
  show "\<not> is_panic (snd (AbortTransaction env tx c))"
    unfolding AbortTransaction_def a using r(2) by (cases r2) simp_all
qed

lemma or_report_panic:
  "(\<And>x s. \<not> is_panic (snd (k x s))) \<Longrightarrow> is_panic (snd (or_report r k)) = is_panic (snd r)"
  by (cases "(r, k)" rule: or_report.cases) simp_all

lemma on_client_snd: "snd (on_client k g ctx) = snd (g ((clients ctx ! k)\<lparr>c_uuids := sh_uuids ctx\<rparr>))"
  by (simp add: on_client_def split: prod.splits)

lemma on_ctx_client_panic:
  "(\<And>c. \<not> is_panic (snd (g c))) \<Longrightarrow>
     is_panic (snd (on_ctx_client g nil ctx)) \<longleftrightarrow> client ctx = None \<and> is_panic (snd (nil ctx))"
  using on_client_snd [of _ g ctx]
  by (simp add: on_ctx_client_def case_prod_beta split: option.splits)

lemma nil_send_panic: "is_panic (nil_send cmd h b) \<longleftrightarrow> Validate ClientFrame (NewFrame cmd h b) = Ret ()"
  using Validate_not_panic by (auto simp: nil_send_def split: outcome.splits)

text \<open>The frames of the commands are valid when what is entered has valid escapes.\<close>

lemma Validate_begin:
  "Validate ClientFrame (NewFrame CmdBegin [(HdrKeyTransaction, u)] None) = Ret () \<longleftrightarrow> checkValidEscapes u"
  by (auto simp: Validate_client_iff validationMap_def clientCmdSet_def conforms_def NewFrame_def
      customHeadersAllowed_def list_all_iff)

lemma Validate_subscribe:
  "Validate ClientFrame (NewFrame CmdSubscribe
     [(HdrKeyID, i), (HdrKeyDestination, d), (HdrKeyAck, HdrValAckAuto)] None) = Ret () \<longleftrightarrow>
   checkValidEscapes i \<and> checkValidEscapes d"
  by (auto simp: Validate_client_iff validationMap_def clientCmdSet_def conforms_def NewFrame_def
      customHeadersAllowed_def list_all_iff)

lemma Validate_disconnect:
  "Validate ClientFrame (NewFrame CmdDisconnect [(HdrKeyReceipt, disconnectID)] None) = Ret ()"
  by code_simp

lemmas shell_panics = or_report_panic on_ctx_client_panic on_client_snd nil_send_panic

lemma unconnected:
  assumes "shell_inv ctx" and "client ctx = None"
  shows "aliasToTx ctx = [] \<and> destToSubs ctx = [] \<and> currTxAlias ctx = ''''"
proof -
  have "clients ctx = []" using assms by (auto simp: shell_inv_def split: if_splits)
  then have "list_all (tx_entry_ok 0) (aliasToTx ctx)" "list_all (subs_entry_ok 0) (destToSubs ctx)"
    using assms(1) by (simp_all add: shell_inv_def)
  moreover have "xs = []" if "list_all (tx_entry_ok 0) xs" for xs
    using that by (cases xs) (auto simp: tx_entry_ok_def)
  moreover have "xs = []" if "list_all (subs_entry_ok 0) xs" for xs
    using that by (cases xs) (auto simp: subs_entry_ok_def)
  ultimately have "aliasToTx ctx = []" "destToSubs ctx = []" by blast+
  with assms(1) show ?thesis by (simp add: shell_inv_def)
qed

lemma handleTxBegin_panic:
  assumes "shell_inv ctx" and "env_ok (net E)"
  shows "is_panic (snd (handleTxBegin E (cmd # args) ctx)) \<longleftrightarrow> client ctx = None \<and> args \<noteq> []"
  using unconnected [OF assms(1)]
  by (cases args)
    (auto simp: handleTxBegin_def Let_def shell_panics Validate_begin env_ok_uuid [OF assms(2)] case_prod_beta)

lemma handleSubscribe_panic:
  assumes "env_ok (net E)"
  shows "is_panic (snd (handleSubscribe E (cmd # args) ctx)) \<longleftrightarrow>
    client ctx = None \<and> args \<noteq> [] \<and> checkValidEscapes (hd args)"
  by (cases args)
    (auto simp: handleSubscribe_def Let_def shell_panics Validate_subscribe env_ok_uuid [OF assms] case_prod_beta)

lemma handleUnsubscribe_panic:
  "is_panic (snd (handleUnsubscribe E (cmd # args) ctx)) \<longleftrightarrow>
     args \<noteq> [] \<and> hd args \<notin> set (gm_keys (destToSubs ctx))"
  using gm_get_None_iff [of "destToSubs ctx" "hd args"]
  by (cases args; cases "gm_get (destToSubs ctx) (hd args)")
    (auto simp: handleUnsubscribe_def Let_def shell_panics)

lemma on_tx_entry_panic:
  "(\<And>c. \<not> is_panic (snd (g tx c))) \<Longrightarrow> \<not> is_panic (snd (on_tx_entry g a k tx ctx))"
  using snd_conv by (simp add: on_tx_entry_def split: prod.splits) (metis snd_conv)

lemma handleTxEnd_panic:
  assumes "shell_inv ctx"
  shows "\<not> is_panic (snd (handleTxCommit E ctx))" and "\<not> is_panic (snd (handleTxAbort E ctx))"
proof -
  have "currTxAlias ctx = '''' \<or> gm_get (aliasToTx ctx) (currTxAlias ctx) \<noteq> None"
    using assms unfolding shell_inv_def gm_get_None_iff by blast
  then show "\<not> is_panic (snd (handleTxCommit E ctx))" "\<not> is_panic (snd (handleTxAbort E ctx))"
    by (cases "gm_get (aliasToTx ctx) (currTxAlias ctx)";
        auto simp: handleTxCommit_def handleTxAbort_def shell_panics on_tx_entry_panic Let_def)+
qed

text \<open>The arguments of \<open>send\<close> make a valid frame.\<close>

definition sends_frame :: "shell_env \<Rightarrow> string list \<Rightarrow> bool" where
  "sends_frame E args \<longleftrightarrow>
     (case parse_args E args of
        Inl err \<Rightarrow> False
      | Inr (opts, rest) \<Rightarrow>
          opt_Dest opts \<noteq> '''' \<and>
          (case option_headers (opt_Headers opts) [] of
             Inl v \<Rightarrow> False
           | Inr h \<Rightarrow>
               Validate ClientFrame (NewFrame CmdSend
                 (send_headers (opt_Dest opts) (Some (join '' '' rest)) ''plain/text'' h)
                 (Some (join '' '' rest))) = Ret ()))"

lemma send_message_panic:
  "is_panic (snd (send_message E dest args h ctx)) \<longleftrightarrow>
     client ctx = None \<and> Validate ClientFrame (NewFrame CmdSend
       (send_headers dest (Some (join '' '' args)) ''plain/text'' h) (Some (join '' '' args))) = Ret ()"
  by (simp add: send_message_def Let_def shell_panics)

lemma handleSend_panic:
  assumes "shell_inv ctx"
  shows "is_panic (snd (handleSend E (cmd # args) ctx)) \<longleftrightarrow> client ctx = None \<and> sends_frame E args"
proof -
  have tx: "\<exists>h'. tx_option ctx h = Ret h'" "client ctx = None \<Longrightarrow> tx_option ctx h = Ret h" for h
    using assms unconnected [OF assms]
    by (auto simp: tx_option_def shell_inv_def gm_get_None_iff split: option.splits)
  show ?thesis
  proof (cases "parse_args E args")
    case (Inr p)
    obtain opts rest where p: "p = (opts, rest)" by (cases p)
    show ?thesis
    proof (cases "option_headers (opt_Headers opts) []")
      case h: (Inr h)
      obtain h' where "tx_option ctx h = Ret h'" using tx(1) by blast
      with tx(2) [of h] Inr p h show ?thesis
        by (auto simp: handleSend_def sends_frame_def send_message_panic)
    qed (simp add: handleSend_def sends_frame_def Inr p)
  qed (simp add: handleSend_def sends_frame_def)
qed

lemma sh_handleConnect_panic: "\<not> is_panic (snd (sh_handleConnect E args ctx))"
proof -
  define ctx' where
    "ctx' = setupConnection E (args ! 1) (args ! 2)
       (if transport E = ''websocket'' then TransportWebsocket else TransportTCP) ctx"
  have "client ctx' \<noteq> None \<or> exit_code ctx' \<noteq> None"
    by (simp add: ctx'_def setupConnection_def Let_def split: outcome.splits)
  then show ?thesis
    unfolding sh_handleConnect_def ctx'_def [symmetric] Let_def
    by (auto simp: shell_panics case_prod_beta)
qed

lemma handleDisconnect_panic: "is_panic (snd (handleDisconnect E ctx)) \<longleftrightarrow> client ctx = None"
  by (simp add: handleDisconnect_def shell_panics Validate_disconnect)

lemma other_handlers_panic:
  "is_panic (snd (showSessionInfo ctx)) \<longleftrightarrow> client ctx = None"
  "\<not> is_panic (snd (handleTxEnter args ctx))" "\<not> is_panic (snd (handleTxLeave ctx))"
  "\<not> is_panic (snd (handleRead args ctx))" "\<not> is_panic (snd (showHelp E ctx))"
  by (auto simp: showSessionInfo_def handleTxEnter_def handleTxLeave_def handleRead_def showHelp_def Let_def
      case_prod_beta split: option.splits)

lemmas handlers_panic = handleTxBegin_panic handleSubscribe_panic handleUnsubscribe_panic handleTxEnd_panic
  handleSend_panic sh_handleConnect_panic handleDisconnect_panic other_handlers_panic

text \<open>The commands that need a client: without one they read the nil pointer.\<close>

definition needs_client :: "shell_env \<Rightarrow> string \<Rightarrow> string list \<Rightarrow> bool" where
  "needs_client E cmd args \<longleftrightarrow>
     cmd \<in> {''session'', ''disconnect'', ''bye'', ''quit''} \<or>
     cmd = ''tx_begin'' \<and> args \<noteq> [] \<or>
     cmd = ''subscribe'' \<and> args \<noteq> [] \<and> checkValidEscapes (hd args) \<or>
     cmd = ''send'' \<and> sends_frame E args"

lemma executor_panic_cmd:
  assumes inv: "shell_inv ctx" and env: "env_ok (net E)" and line: "str_fields line = cmd # args"
  shows "is_panic (snd (executor E line ctx)) \<longleftrightarrow>
    cmd = ''unsubscribe'' \<and> args \<noteq> [] \<and> hd args \<notin> set (gm_keys (destToSubs ctx)) \<or>
    client ctx = None \<and> needs_client E cmd args"
proof -
  have "line \<noteq> ''''" using line by auto
  have "is_panic (snd (and_then (handleDisconnect E ctx) k)) \<longleftrightarrow> client ctx = None"
    if "\<And>x s. \<not> is_panic (snd (k x s))" for k :: "unit \<Rightarrow> stateContext \<Rightarrow> stateContext \<times> unit result"
    using that handleDisconnect_panic [of E ctx]
    by (cases "(handleDisconnect E ctx, k)" rule: and_then.cases) auto
  with \<open>line \<noteq> ''''\<close> show ?thesis
    unfolding executor_def fields_trim line Let_def needs_client_def
    by (simp add: handlers_panic inv env)
qed

section \<open>What the commands do\<close>

text \<open>A frame that is valid and gets through leaves the client with nothing but one more write.\<close>

definition wrote :: "env \<Rightarrow> string \<Rightarrow> ClientHandler \<Rightarrow> ClientHandler" where
  "wrote env b c = c\<lparr>c_conn := (c_conn c)\<lparr>conn_attempts := conn_attempts (c_conn c) @ [b],
     conn_sent := conn_sent (c_conn c) @ [b],
     conn_wire := conn_wire (c_conn c) @ torn env (c_conn c) b @ b\<rparr>\<rparr>"

lemma c_sent_wrote [simp]: "c_sent (wrote env b c) = c_sent c @ [b]" "c_sent (c\<lparr>c_uuids := n\<rparr>) = c_sent c"
  "c_uuids (wrote env b c) = c_uuids c"
  by (simp_all add: wrote_def c_sent_def)

lemma client_send_wrote:
  "Validate ClientFrame (NewFrame cmd h b) = Ret () \<Longrightarrow> deliver env (c_conn c) (serialize (NewFrame cmd h b)) = None \<Longrightarrow>
     client_send env cmd h b c = (wrote env (serialize (NewFrame cmd h b)) c, Ret ())"
  by (simp add: client_send_def write_client_def retry_write_def wrote_def Let_def)

abbreviation begin_bytes :: "string \<Rightarrow> string" where
  "begin_bytes i \<equiv> serialize (NewFrame CmdBegin [(HdrKeyTransaction, i)] None)"

abbreviation commit_bytes :: "string \<Rightarrow> string" where
  "commit_bytes i \<equiv> serialize (NewFrame CmdCommit [(HdrKeyTransaction, i)] None)"

lemma Validate_commit:
  "Validate ClientFrame (NewFrame CmdCommit [(HdrKeyTransaction, u)] None) = Ret () \<longleftrightarrow> checkValidEscapes u"
  by (auto simp: Validate_client_iff validationMap_def clientCmdSet_def conforms_def NewFrame_def
      customHeadersAllowed_def list_all_iff)

lemma executor_words:
  assumes "list_all plain_word (cmd # args)"
  shows "join '' '' (cmd # args) \<noteq> []" and "str_fields (trim_space (join '' '' (cmd # args))) = cmd # args"
  using fields_join [OF assms] by (auto simp: fields_trim)

lemma plain_words [simp]:
  "plain_word ''tx_begin''" "plain_word ''tx_leave''" "plain_word ''tx_enter''" "plain_word ''tx_commit''"
  "plain_word ''read''" "plain_word ''-a''" "plain_word ''send''"
  by (simp_all add: plain_word_def)

lemma begin_line:
  assumes "plain_word a" and "client ctx = Some k" and "k < length (clients ctx)" and "currTxAlias ctx = ''''"
    and "env_ok (net E)" and "\<And>c b. deliver (net E) c b = None"
  shows "executor E (join '' '' [''tx_begin'', a]) ctx =
    (let i = newUUID (net E) (sh_uuids ctx)
     in (okMsg (''Transaction began, '' @ a @ '': '' @ i)
           (ctx\<lparr>clients := (clients ctx)[k := wrote (net E) (begin_bytes i) ((clients ctx ! k)\<lparr>c_uuids := Suc (sh_uuids ctx)\<rparr>)],
                sh_uuids := Suc (sh_uuids ctx),
                aliasToTx := gm_set a (k, \<lparr>tx_open = True, TxID = i\<rparr>) (aliasToTx ctx), currTxAlias := a\<rparr>), Ret ()))"
  using executor_words [of "''tx_begin''" "[a]"] assms
  by (simp add: executor_def handleTxBegin_def on_ctx_client_def on_client_def BeginTransaction_def
      client_send_wrote Validate_begin env_ok_uuid Let_def del: join.simps)

lemma leave_line:
  "executor E ''tx_leave'' ctx = (okMsg ''Switched out of transaction'' (ctx\<lparr>currTxAlias := ''''\<rparr>), Ret ())"
  using executor_words [of "''tx_leave''" "[]"]
  by (simp add: executor_def handleTxLeave_def Let_def)

lemma enter_line:
  assumes "plain_word a" and "gm_get (aliasToTx ctx) a = Some (k, tx)"
  shows "executor E (join '' '' [''tx_enter'', a]) ctx =
    (okMsg (''Entering tx '' @ a @ '': '' @ TxID tx) (ctx\<lparr>currTxAlias := a\<rparr>), Ret ())"
  using executor_words [of "''tx_enter''" "[a]"] assms
  by (simp add: executor_def handleTxEnter_def Let_def del: join.simps)

lemma commit_line:
  assumes "currTxAlias ctx \<noteq> ''''" and "gm_get (aliasToTx ctx) (currTxAlias ctx) = Some (k, tx)" and "tx_open tx"
    and "checkValidEscapes (TxID tx)" and "\<And>c b. deliver (net E) c b = None"
  shows "executor E ''tx_commit'' ctx =
    ((okMsg (''Transaction commit, '' @ currTxAlias ctx @ '':'' @ TxID tx)
       (ctx\<lparr>clients := (clients ctx)[k := wrote (net E) (commit_bytes (TxID tx)) (clients ctx ! k)]\<rparr>))
     \<lparr>aliasToTx := gm_del (currTxAlias ctx) (aliasToTx ctx), currTxAlias := ''''\<rparr>, Ret ())"
  using executor_words [of "''tx_commit''" "[]"] assms
  by (simp add: executor_def handleTxCommit_def on_tx_entry_def CommitTransaction_def client_send_wrote
      Validate_commit okMsg_def print_out_def Let_def)

text \<open>What a frame adds to the messages.\<close>

lemma receive_messages:
  "k \<in> receiving ctx \<Longrightarrow> messages (fst (receive E k raw ctx)) = messages ctx @
     map (message_text E) (drop (length (handled (clients ctx ! k)))
       (handled (fst (client_raw (net E) raw (clients ctx ! k)))))"
  by (simp add: receive_def Let_def split: prod.splits outcome.splits)

lemma read_loop_poll:
  "fst (read_loop all i ms p ctx) = (if ms = [] then p else i + (if all then length ms - 1 else 0))"
  by (induction all i ms p ctx rule: read_loop.induct) (auto simp: Let_def Suc_le_eq)

lemma handleRead_result:
  assumes "messages ctx \<noteq> []"
  shows "handleRead args ctx =
    (let all = (length args > 1 \<and> args ! 1 = ''-a''); n = (if all then length (messages ctx) else 1)
     in (ctx\<lparr>printed := printed ctx @ Print ruler #
            concat (map (\<lambda>m. [Print m, Print ruler]) (take n (messages ctx))),
          messages := drop n (messages ctx)\<rparr>, Ret ()))"
proof -
  define all where "all = (length args > 1 \<and> args ! 1 = ''-a'')"
  have "read_loop all 0 (messages ctx) 0 (print_out (Print ruler) ctx) =
     (if all then length (messages ctx) - 1 else 0, ctx\<lparr>printed := printed ctx @ Print ruler #
     concat (map (\<lambda>m. [Print m, Print ruler]) (if all then messages ctx else take 1 (messages ctx)))\<rparr>)"
    by (rule prod_eqI) (simp_all add: read_loop_poll assms read_loop_same print_out_def)
  with assms show ?thesis
    unfolding handleRead_def all_def [symmetric] by (simp add: Let_def)
qed

lemma handleRead_empty: "messages ctx = [] \<Longrightarrow> handleRead args ctx = (ctx, Ret ())"
  by (simp add: handleRead_def)

lemma read_dispatch:
  "executor E ''read'' ctx = handleRead [''read''] ctx"
  "executor E ''read -a'' ctx = handleRead [''read'', ''-a''] ctx"
  using executor_words [of "''read''" "[]"] executor_words [of "''read''" "[''-a'']"]
  by (simp_all add: executor_def Let_def)

lemma read_line:
  "executor E ''read'' ctx =
     (case messages ctx of
        [] \<Rightarrow> (ctx, Ret ())
      | m # ms \<Rightarrow> (ctx\<lparr>printed := printed ctx @ [Print ruler, Print m, Print ruler], messages := ms\<rparr>, Ret ()))"
  unfolding read_dispatch
  by (cases "messages ctx") (simp_all add: handleRead_empty handleRead_result)

lemma read_all_line:
  "executor E ''read -a'' ctx =
     (if messages ctx = [] then (ctx, Ret ())
      else (ctx\<lparr>printed := printed ctx @ Print ruler # concat (map (\<lambda>m. [Print m, Print ruler]) (messages ctx)),
                messages := []\<rparr>, Ret ()))"
  unfolding read_dispatch by (simp add: handleRead_empty handleRead_result)

text \<open>The headers of \<open>send\<close>: those of the options, and the transaction above them.\<close>

lemma option_headers_ok: "option_headers vs h = Inr h' \<Longrightarrow> gm_ok h \<Longrightarrow> gm_ok h'"
  by (induction vs h rule: option_headers.induct) (auto simp: Let_def split: if_splits)

lemma send_headers_get:
  "gm_ok h \<Longrightarrow> gm_get h hk = Some v \<Longrightarrow> gm_get (send_headers dest b ct h) hk = Some v"
  unfolding send_headers_def by (subst gm_get_fold_set) auto

lemma send_line:
  assumes words: "list_all plain_word args" and k: "client ctx = Some k" "k < length (clients ctx)"
    and parse: "parse_args E args = Inr (opts, rest)" "opt_Dest opts \<noteq> ''''"
      "option_headers (opt_Headers opts) [] = Inr h" "tx_option ctx h = Ret h'"
    and f: "f = NewFrame CmdSend (send_headers (opt_Dest opts) (Some (join '' '' rest)) ''plain/text'' h')
      (Some (join '' '' rest))"
    and valid: "Validate ClientFrame f = Ret ()" and net: "\<And>c b. deliver (net E) c b = None"
  shows "executor E (join '' '' (''send'' # args)) ctx =
    (okMsg ''Message sent''
      (ctx\<lparr>clients := (clients ctx)[k := wrote (net E) (serialize f) ((clients ctx ! k)\<lparr>c_uuids := sh_uuids ctx\<rparr>)]\<rparr>), Ret ())"
  using executor_words [of "''send''" args] words k parse valid net
  unfolding f
  by (simp add: executor_def handleSend_def send_message_def on_ctx_client_def on_client_def Send_def
      client_send_wrote Let_def del: join.simps)

section \<open>Properties\<close>

text \<open>
  An environment for concrete runs: every connection opens and delivers, and \<open>send\<close> takes
  \<^verbatim>\<open>-d\<close>, a destination, any number of \<^verbatim>\<open>-h\<close> with a header, and the words of the body.
\<close>

fun demo_flags :: "string list \<Rightarrow> send_opts \<Rightarrow> go_error + (send_opts \<times> string list)" where
  "demo_flags (a # v # args) opts =
     (if a = ''-d'' then demo_flags args (opts\<lparr>opt_Dest := v\<rparr>)
      else if a = ''-h'' then demo_flags args (opts\<lparr>opt_Headers := opt_Headers opts @ [v]\<rparr>)
      else Inr (opts, a # v # args))"
| "demo_flags args opts = Inr (opts, args)"

definition demo_shell :: shell_env where
  "demo_shell =
     \<lparr>net = echo_env, transport = ''websocket'', net_Dial = \<lambda>n addr. None, websocket_Dial = \<lambda>n addr. None,
      remote_Addr = \<lambda>n. ''h:61613'',
      parse_args = \<lambda>args. demo_flags args \<lparr>opt_Headers = [], opt_File = '''', opt_Dest = ''''\<rparr>,
      keyPrint = \<lambda>s. s, valPrint = \<lambda>s. s, bodyPrint = \<lambda>s. s, tabwrite = \<lambda>rows. concat (map fst rows),
      filterFuzzy = \<lambda>rows w. rows\<rparr>"

definition demo_ctx :: stateContext where
  "demo_ctx = run_ops (shell_step demo_shell) [Line ''connect h 61613''] init_ctx"

lemma demo_net: "env_ok (net demo_shell)" "deliver (net demo_shell) c b = None" "exit_code demo_ctx = None"
    "client demo_ctx = Some 0" "currTxAlias demo_ctx = ''''" "aliasToTx demo_ctx = []" "destToSubs demo_ctx = []"
  by (simp_all add: demo_shell_def env_ok_def echo_env_def) (code_simp+)

lemma demo_ctx_inv: "shell_inv demo_ctx"
  unfolding demo_ctx_def by (rule shell_machine.run_inv [OF shell_inv_init]) simp

text \<open>
  C18. The state of the shell never goes wrong, whatever lines are entered and whatever
  the broker sends: its maps hold no nil pointer and no closed transaction, the current
  transaction is one of its transactions, subscriptions are filed under their destination,
  \<open>ctx.client\<close> is the last client made, only existing clients receive, and every client
  writes valid frames only and never has a heart-beat scheduled.
\<close>

theorem shell_invariant: "shell_inv (run_ops (shell_step E) events init_ctx)"
  by (rule shell_machine.run_inv [OF shell_inv_init]) simp

text \<open>
  C14. Exactly which lines end the shell with a panic: a line of nothing but white space
  (\<open>in[0]\<close> of no fields), \<open>unsubscribe\<close> for a destination without a subscription, and,
  before the first \<open>connect\<close>, the commands that use the client (\<open>quit\<close> among them).
\<close>

theorem executor_panics_iff:
  assumes inv: "shell_inv ctx" and env: "env_ok (net E)"
  shows "is_panic (snd (executor E line ctx)) \<longleftrightarrow>
    line \<noteq> '''' \<and>
    (case str_fields line of
       [] \<Rightarrow> True
     | cmd # args \<Rightarrow>
         cmd = ''unsubscribe'' \<and> args \<noteq> [] \<and> hd args \<notin> set (gm_keys (destToSubs ctx)) \<or>
         client ctx = None \<and> needs_client E cmd args)"
proof (cases "str_fields line")
  case Nil
  then show ?thesis by (simp add: executor_def fields_trim)
next
  case (Cons cmd args)
  then show ?thesis using executor_panic_cmd [OF inv env Cons] by auto
qed

theorem executor_panics_iff_witness:
  "is_panic (snd (executor demo_shell '' '' demo_ctx)) \<and>
   is_panic (snd (executor demo_shell ''unsubscribe /q'' demo_ctx)) \<and>
   is_panic (snd (executor demo_shell ''quit'' init_ctx)) \<and>
   \<not> is_panic (snd (executor demo_shell ''quit'' demo_ctx))"
proof -
  have f: "str_fields '' '' = []" "str_fields ''unsubscribe /q'' = [''unsubscribe'', ''/q'']"
      "str_fields ''quit'' = [''quit'']"
    by code_simp+
  show ?thesis
    unfolding executor_panics_iff [OF demo_ctx_inv demo_net(1)] executor_panics_iff [OF shell_inv_init demo_net(1)]
    by (simp add: f demo_net needs_client_def init_ctx_def)
qed

text \<open>
  C19. A transaction of the shell over its whole life: begun under a new alias, left,
  entered again and committed, it puts exactly a BEGIN and a COMMIT with one and the same ID on the
  connection, and leaves the table of transactions as it was, with none of them current.
\<close>

theorem shell_tx_lifecycle:
  assumes inv: "shell_inv ctx" "exit_code ctx = None" "client ctx = Some k" "currTxAlias ctx = ''''"
    and env: "env_ok (net E)" "\<And>c b. deliver (net E) c b = None"
    and a: "plain_word a" "a \<notin> set (gm_keys (aliasToTx ctx))"
    and i: "i = newUUID (net E) (sh_uuids ctx)"
    and ctx': "ctx' = run_ops (shell_step E)
      [Line (join '' '' [''tx_begin'', a]), Line ''tx_leave'', Line (join '' '' [''tx_enter'', a]),
       Line ''tx_commit''] ctx"
  shows "c_sent (clients ctx' ! k) = c_sent (clients ctx ! k) @ [begin_bytes i, commit_bytes i] \<and>
    aliasToTx ctx' = aliasToTx ctx \<and> currTxAlias ctx' = ''''"
proof -
  have k: "k < length (clients ctx)" by (rule shell_inv_client [OF inv(1,3)])
  have del: "gm_del a (aliasToTx ctx) = aliasToTx ctx" using a(2) by (simp add: delete_idem)
  have "a \<noteq> ''''" using a(1) by (simp add: plain_word_def)
  then show ?thesis
    unfolding ctx' i
    using k inv(2,3,4) env a del
    by (simp add: begin_line leave_line enter_line commit_line env_ok_uuid okMsg_def print_out_def Let_def
        del: join.simps)
qed

theorem shell_tx_lifecycle_witness:
  "aliasToTx (run_ops (shell_step demo_shell)
     [Line (join '' '' [''tx_begin'', ''a'']), Line ''tx_leave'', Line (join '' '' [''tx_enter'', ''a'']),
      Line ''tx_commit''] demo_ctx) = []"
proof -
  have "plain_word ''a''" by (simp add: plain_word_def)
  from shell_tx_lifecycle [OF demo_ctx_inv demo_net(3,4,5) demo_net(1,2) this _ refl refl] demo_net(6)
  show ?thesis by simp
qed

text \<open>
  C20. While a transaction is current, \<open>send\<close> writes one SEND frame that carries the ID of this
  transaction, whatever headers the options add (even a \<open>transaction\<close> of their own), and whose
  body is the remaining words joined by blanks.
\<close>

theorem send_in_current_tx:
  assumes inv: "shell_inv ctx" "client ctx = Some k"
    and tx: "currTxAlias ctx \<noteq> ''''" "gm_get (aliasToTx ctx) (currTxAlias ctx) = Some (k', tx)"
    and args: "list_all plain_word args" "parse_args E args = Inr (opts, rest)" "opt_Dest opts \<noteq> ''''"
      "option_headers (opt_Headers opts) [] = Inr h"
    and f: "f = NewFrame CmdSend (send_headers (opt_Dest opts) (Some (join '' '' rest)) ''plain/text''
        (gm_set HdrKeyTransaction (TxID tx) h)) (Some (join '' '' rest))" "Validate ClientFrame f = Ret ()"
    and net: "\<And>c b. deliver (net E) c b = None"
  shows "c_sent (clients (fst (executor E (join '' '' (''send'' # args)) ctx)) ! k) =
      c_sent (clients ctx ! k) @ [serialize f] \<and>
    getHeader f HdrKeyTransaction = TxID tx \<and> body f = Some (join '' '' rest)"
proof -
  have "tx_option ctx h = Ret (gm_set HdrKeyTransaction (TxID tx) h)" using tx by (simp add: tx_option_def)
  note send_line [where E = E, OF args(1) inv(2) shell_inv_client [OF inv] args(2,3,4) this f net]
  moreover have "gm_ok h" by (rule option_headers_ok [OF args(4)]) simp
  then have "gm_get (headers f) HdrKeyTransaction = Some (TxID tx)"
    unfolding f(1) NewFrame_def by (simp add: send_headers_get gm_ok_set)
  ultimately show ?thesis
    using shell_inv_client [OF inv] by (simp add: okMsg_def getHeader_def f(1) NewFrame_def)
qed

definition demo_tx_ctx :: stateContext where
  "demo_tx_ctx = run_ops (shell_step demo_shell) [Line ''tx_begin a''] demo_ctx"

theorem send_in_current_tx_witness:
  "getHeader (NewFrame CmdSend (send_headers ''/q'' (Some ''hi'') ''plain/text''
      (gm_set HdrKeyTransaction ''c'' [(HdrKeyTransaction, ''x'')])) (Some ''hi'')) HdrKeyTransaction = ''c''"
proof -
  have inv: "shell_inv demo_tx_ctx"
    unfolding demo_tx_ctx_def by (rule shell_machine.run_inv [OF demo_ctx_inv]) simp
  let ?opts = "\<lparr>opt_Headers = [''transaction:x''], opt_File = '''', opt_Dest = ''/q''\<rparr>"
  let ?args = "[''-d'', ''/q'', ''-h'', ''transaction:x'', ''hi'']" and ?bdy = "Some (join '' '' [''hi''])"
  let ?f = "NewFrame CmdSend (send_headers (opt_Dest ?opts) ?bdy ''plain/text''
    (gm_set HdrKeyTransaction ''c'' [(HdrKeyTransaction, ''x'')])) ?bdy"
  have run: "client demo_tx_ctx = Some 0" "currTxAlias demo_tx_ctx \<noteq> ''''"
      "gm_get (aliasToTx demo_tx_ctx) (currTxAlias demo_tx_ctx) = Some (0, \<lparr>tx_open = True, TxID = ''c''\<rparr>)"
      "list_all plain_word ?args" "parse_args demo_shell ?args = Inr (?opts, [''hi''])" "opt_Dest ?opts \<noteq> ''''"
      "option_headers (opt_Headers ?opts) [] = Inr [(HdrKeyTransaction, ''x'')]"
    by code_simp+
  have tx: "TxID \<lparr>tx_open = True, TxID = ''c''\<rparr> = ''c''" by simp
  have "Validate ClientFrame ?f = Ret ()" by code_simp
  from send_in_current_tx [OF inv run refl, unfolded tx, OF this demo_net(2)]
  show ?thesis by simp
qed

text \<open>
  \<open>read\<close> shows the messages in the order in which they arrived, one for every \<open>read\<close>, and
  \<open>read -a\<close> all that are left; what was shown is gone, and nothing else is.
\<close>

theorem read_in_order:
  assumes "exit_code ctx = None" and "n \<le> length (messages ctx)"
    and "ctx' = run_ops (shell_step E) (replicate n (Line ''read'')) ctx"
  shows "messages ctx' = drop n (messages ctx) \<and>
    printed ctx' = printed ctx @ concat (map (\<lambda>m. [Print ruler, Print m, Print ruler]) (take n (messages ctx))) \<and>
    messages (fst (executor E ''read -a'' ctx')) = [] \<and>
    [m. Print m \<leftarrow> drop (length (printed ctx')) (printed (fst (executor E ''read -a'' ctx'))), m \<noteq> ruler] =
      filter (\<lambda>m. m \<noteq> ruler) (drop n (messages ctx))"
proof -
  have run: "run_ops (shell_step E) (replicate n (Line ''read'')) ctx =
      ctx\<lparr>printed := printed ctx @ concat (map (\<lambda>m. [Print ruler, Print m, Print ruler]) (take n (messages ctx))),
          messages := drop n (messages ctx)\<rparr>"
    using assms(1,2)
  proof (induction n arbitrary: ctx)
    case (Suc n)
    then show ?case by (cases "messages ctx") (simp_all add: read_line)
  qed simp
  have "[x. Print x \<leftarrow> concat (map (\<lambda>m. [Print m, Print ruler]) ms), x \<noteq> ruler] = filter (\<lambda>m. m \<noteq> ruler) ms" for ms
    by (induction ms) auto
  then show ?thesis
    unfolding assms(3) run read_all_line by simp
qed

theorem read_in_order_witness:
  "messages (run_ops (shell_step demo_shell) (replicate 1 (Line ''read''))
     (demo_ctx\<lparr>messages := [''first'', ''second'']\<rparr>)) = [''second'']"
  using read_in_order [of "demo_ctx\<lparr>messages := [''first'', ''second'']\<rparr>" 1] demo_net(3) by simp

end
