(* ===== verification/Servers.thy ===== *)
theory Servers
  imports Broker_Invariants
begin

text \<open>
  The servers around the sessions: \<^verbatim>\<open>pkg/stomp/tcp.go\<close>, \<^verbatim>\<open>pkg/stomp/websocket.go\<close> and the command
  \<^verbatim>\<open>cmd/stompd/stompd.go\<close>. The network library is a parameter: what \<open>net.Listen\<close>, \<open>net.Dial\<close> and
  \<open>websocket.Dial\<close> return, and when \<open>Accept\<close> returns what, which is an event. Each server is a
  step relation over its events and those of the sessions (\<open>broker_step\<close>); the state of the
  broker process is part of its state.
\<close>

section \<open>TCP\<close>

text \<open>
  Where \<open>ListenAndServe\<close> is: not called, in the loop around \<open>Accept\<close>, in \<open>wgSessions.Wait()\<close>,
  returned; \<open>Crashed\<close> is a process that a panic has ended.
\<close>

datatype phase = Idle | Accepting | Waiting | Returned | Crashed

record tcpBroker =
  tcp_opts :: BrokerOpts
  listener_closed :: bool
  tcp_phase :: phase
  tcp_proc :: broker

definition startTcpBroker ::
  "(string \<Rightarrow> go_error option) \<Rightarrow> broker \<Rightarrow> BrokerOpts \<Rightarrow> tcpBroker result" where
  "startTcpBroker net_Listen st opts =
     (case net_Listen (Host opts @ '':'' @ Port opts) of
        Some err \<Rightarrow> Fail (errorMsg errNetwork (''Listening failed: '' @ error_text err))
      | None \<Rightarrow> Ret \<lparr>tcp_opts = opts, listener_closed = False, tcp_phase = Idle, tcp_proc = st\<rparr>)"

text \<open>
  The steps: the call of \<open>ListenAndServe\<close> (with a new wait group), what \<open>Accept\<close> returns (a
  connection only while the listener is open), the return of \<open>Wait\<close> when the group is
  empty, \<open>Shutdown\<close> (called, or by the goroutine that awaits a signal), and the events of
  the sessions.
\<close>

datatype tcp_event = Serve | AcceptConn | AcceptErr | WaitOver | Shutdown | Session event

inductive tcp_step :: "env \<Rightarrow> tcpBroker \<Rightarrow> tcp_event \<Rightarrow> tcpBroker \<Rightarrow> bool" for env where
  serve: "tcp_step env s Serve (s\<lparr>tcp_phase := Accepting, tcp_proc := (tcp_proc s)\<lparr>wgSessions := 0\<rparr>\<rparr>)"
    if "tcp_phase s = Idle"
| conn: "tcp_step env s AcceptConn (s\<lparr>tcp_proc := accept env (tcp_opts s) (tcp_proc s)\<rparr>)"
    if "tcp_phase s = Accepting" and "\<not> listener_closed s"
| refused: "tcp_step env s AcceptErr (s\<lparr>tcp_phase := Waiting\<rparr>)"
    if "tcp_phase s = Accepting"
| waited: "tcp_step env s WaitOver (s\<lparr>tcp_phase := Returned\<rparr>)"
    if "tcp_phase s = Waiting" and "wgSessions (tcp_proc s) = 0"
| shutdown: "tcp_step env s Shutdown (s\<lparr>listener_closed := True\<rparr>)"
    if "tcp_phase s \<noteq> Crashed"
| session: "tcp_step env s (Session e)
      (s\<lparr>tcp_proc := p, tcp_phase := (if is_panic r then Crashed else tcp_phase s)\<rparr>)"
    if "tcp_phase s \<noteq> Crashed" and "e \<noteq> Accept" and "broker_step env (tcp_opts s) e (tcp_proc s) = (p, r)"

code_pred (modes: i \<Rightarrow> i \<Rightarrow> i \<Rightarrow> o \<Rightarrow> bool) tcp_step .

inductive tcp_run :: "env \<Rightarrow> tcpBroker \<Rightarrow> tcp_event list \<Rightarrow> tcpBroker \<Rightarrow> bool" for env where
  run_nil: "tcp_run env s [] s"
| run_cons: "tcp_run env s (x # xs) s''" if "tcp_step env s x s'" and "tcp_run env s' xs s''"

inductive_cases tcp_run_nilE: "tcp_run env s [] s'"
inductive_cases tcp_run_consE: "tcp_run env s (x # xs) s''"

inductive_simps tcp_step_simps:
  "tcp_step env s Serve s'" "tcp_step env s AcceptConn s'" "tcp_step env s AcceptErr s'"
  "tcp_step env s WaitOver s'" "tcp_step env s Shutdown s'" "tcp_step env s (Session e) s'"

lemma tcp_step_unique: "tcp_step env s x s' \<Longrightarrow> tcp_step env s x s'' \<Longrightarrow> s' = s''"
  by (cases x) (auto simp: tcp_step_simps)

lemma tcp_run_unique: "tcp_run env s xs s' \<Longrightarrow> tcp_run env s xs s'' \<Longrightarrow> s' = s''"
proof (induction arbitrary: s'' rule: tcp_run.induct)
  case (run_cons s x s1 xs s2)
  then show ?case using tcp_step_unique by (blast elim: tcp_run_consE)
qed (blast elim: tcp_run_nilE)

lemma tcp_run_append: "tcp_run env s xs s' \<Longrightarrow> tcp_run env s' ys s'' \<Longrightarrow> tcp_run env s (xs @ ys) s''"
  by (induction rule: tcp_run.induct) (auto intro: tcp_run.intros)

text \<open>An invariant of the steps holds along a run.\<close>

lemma tcp_run_inv:
  assumes "tcp_run env s xs s'" and "P s" and "\<And>s x s'. tcp_step env s x s' \<Longrightarrow> P s \<Longrightarrow> P s'"
  shows "P s'"
  using assms by (induction rule: tcp_run.induct) blast+

section \<open>How a session's goroutine moves\<close>

lemma cleanup_routine: "routine (fst (cleanup sid st)) = routine st"
  by (simp add: cleanup_def Let_def close_conn_def update_session_def split: option.splits)

lemma broker_step_routine:
  assumes "e \<noteq> Accept"
  shows "routine (fst (broker_step env opts e st)) sid = routine st sid \<or>
    routine st sid = Running \<and> routine (fst (broker_step env opts e st)) sid \<in> {Ended, Stuck}"
proof (cases e)
  case (Incoming i raw)
  obtain st' r where r: "handle_raw env i raw st = (st', r)" by fastforce
  then have "routine st' = routine st"
    using handle_raw_threads [of st env i raw] by (simp add: same_threads_def)
  with r Incoming show ?thesis by (cases r) (auto simp: cleanup_routine set_routine_def)
next
  case (Tick j)
  have "routine (fst (regardless (sendRaw env i b st) (\<lambda>st. (st, Ret ())))) = routine st" for i b
    using same_core_tick [of st env i b] by (simp add: same_core_def)
  with Tick show ?thesis by (simp split: option.splits)
next
  case (Hangup i)
  then show ?thesis by (simp add: close_conn_def update_session_def)
qed (use assms in \<open>auto simp: cleanup_routine set_routine_def\<close>)

lemma broker_step_live:
  "e \<noteq> Accept \<Longrightarrow> live_routines (fst (broker_step env opts e st)) \<subseteq> live_routines st"
proof
  fix sid
  assume "e \<noteq> Accept" and "sid \<in> live_routines (fst (broker_step env opts e st))"
  with broker_step_routine [of e env opts st sid] show "sid \<in> live_routines st"
    by (auto simp: live_routines_def)
qed

lemma accept_live: "live_routines (accept env opts st) = insert (newUUID env (uuids st)) (live_routines st)"
  by (auto simp: accept_def live_routines_def Let_def)

lemma accept_fresh:
  assumes "threads_inv env st" and "inj (newUUID env)"
  shows "routine st (newUUID env (uuids st)) = NotStarted"
proof -
  have "newUUID env (uuids st) \<notin> newUUID env ` {..< uuids st}" using assms(2) by (auto dest: injD)
  with assms(1) show ?thesis by (auto simp: threads_inv_def)
qed

section \<open>The invariant of the server\<close>

text \<open>
  The process keeps its invariant, and before \<open>ListenAndServe\<close> is called and after it has
  returned no session goroutine is alive.
\<close>

definition tcp_inv :: "env \<Rightarrow> tcpBroker \<Rightarrow> bool" where
  "tcp_inv env s \<longleftrightarrow>
     process_inv env (tcp_proc s) \<and>
     (tcp_phase s = Idle \<or> tcp_phase s = Returned \<longrightarrow> live_routines (tcp_proc s) = {})"

lemma process_inv_step:
  "inj (newUUID env) \<Longrightarrow> process_inv env st \<Longrightarrow> process_inv env (fst (broker_step env opts e st))"
  by (rule process_machine.step_inv)

lemma process_inv_wait:
  "process_inv env st \<Longrightarrow> live_routines st = {} \<longleftrightarrow> wgSessions st = 0"
  using live_routines_finite [of env st] by (auto simp: process_inv_def threads_inv_def)

lemma process_inv_wg: "process_inv env st \<Longrightarrow> live_routines st = {} \<Longrightarrow> st\<lparr>wgSessions := 0\<rparr> = st"
  by (simp add: process_inv_def threads_inv_def)

lemma tcp_step_inv:
  assumes "inj (newUUID env)" and "tcp_step env s x s'" and "tcp_inv env s"
  shows "tcp_inv env s'"
  using assms(2)
proof cases
  case serve
  then show ?thesis using assms(3) process_inv_wg [of env "tcp_proc s"] by (simp add: tcp_inv_def)
next
  case conn
  then show ?thesis
    using assms(3) process_inv_step [OF assms(1), of "tcp_proc s" "tcp_opts s" Accept] by (simp add: tcp_inv_def)
next
  case waited
  then show ?thesis using assms(3) process_inv_wait [of env "tcp_proc s"] by (simp add: tcp_inv_def)
next
  case (session e p r)
  have "process_inv env p" "live_routines p \<subseteq> live_routines (tcp_proc s)"
    using assms(3) process_inv_step [OF assms(1), of "tcp_proc s" "tcp_opts s" e]
      broker_step_live [OF session(4), of env "tcp_opts s" "tcp_proc s"] session(5)
    by (simp_all add: tcp_inv_def)
  with assms(3) session(2) show ?thesis by (auto simp: tcp_inv_def)
qed (use assms(3) in \<open>simp_all add: tcp_inv_def\<close>)

lemma tcp_inv_run: "inj (newUUID env) \<Longrightarrow> tcp_run env s xs s' \<Longrightarrow> tcp_inv env s \<Longrightarrow> tcp_inv env s'"
  using tcp_run_inv [of env s xs s' "tcp_inv env"] tcp_step_inv by blast

lemma startTcpBroker_inv:
  "startTcpBroker listen (broker_start empty_registry) opts = Ret s \<Longrightarrow> tcp_inv env s \<and> tcp_phase s = Idle"
  using process_inv_start [of env]
  by (auto simp: startTcpBroker_def tcp_inv_def live_routines_def broker_start_def split: option.splits)

text \<open>A goroutine that is stuck stays stuck, and no session is added once the listener is closed.\<close>

lemma tcp_step_stuck:
  assumes "inj (newUUID env)" and "tcp_step env s x s'" and "tcp_inv env s"
    and "routine (tcp_proc s) sid = Stuck"
  shows "routine (tcp_proc s') sid = Stuck"
  using assms(2)
proof cases
  case conn
  have "routine (tcp_proc s) (newUUID env (uuids (tcp_proc s))) = NotStarted"
    using assms(1,3) by (auto simp: tcp_inv_def process_inv_def intro: accept_fresh)
  with assms(4) conn show ?thesis by (auto simp: accept_def Let_def)
next
  case (session e p r)
  with assms(4) broker_step_routine [OF session(4), of env "tcp_opts s" "tcp_proc s" sid] show ?thesis by auto
qed (use assms(4) in simp_all)

lemma tcp_step_closed:
  assumes "tcp_step env s x s'" and "listener_closed s"
  shows "listener_closed s' \<and> live_routines (tcp_proc s') \<subseteq> live_routines (tcp_proc s)"
  using assms(1)
proof cases
  case (session e p r)
  with assms(2) broker_step_live [OF session(4), of env "tcp_opts s" "tcp_proc s"] show ?thesis by simp
qed (use assms(2) in \<open>auto simp: live_routines_def\<close>)

lemma tcp_run_closed:
  "tcp_run env s xs s' \<Longrightarrow> listener_closed s \<Longrightarrow> live_routines (tcp_proc s') \<subseteq> live_routines (tcp_proc s)"
  by (induction rule: tcp_run.induct) (auto dest: tcp_step_closed)

text \<open>The end of every session, one after the other, empties the wait group.\<close>

lemma tcp_drain:
  assumes "inj (newUUID env)"
  shows "tcp_inv env s \<Longrightarrow> tcp_phase s = Waiting \<Longrightarrow> distinct sids \<Longrightarrow>
    (\<And>i. i \<in> set sids \<Longrightarrow> routine (tcp_proc s) i = Running) \<Longrightarrow>
    \<exists>s'. tcp_run env s (map (\<lambda>i. Session (Eof i)) sids) s' \<and> tcp_phase s' = Waiting \<and> tcp_inv env s' \<and>
      live_routines (tcp_proc s') = live_routines (tcp_proc s) - set sids"
proof (induction sids arbitrary: s)
  case Nil
  then show ?case by (auto intro: run_nil)
next
  case (Cons i sids)
  define s1 where "s1 = s\<lparr>tcp_proc := fst (broker_step env (tcp_opts s) (Eof i) (tcp_proc s))\<rparr>"
  have run: "routine (tcp_proc s) i = Running" and inv: "threads_inv env (tcp_proc s)"
    using Cons.prems by (auto simp: tcp_inv_def process_inv_def)
  have ret: "snd (broker_step env (tcp_opts s) (Eof i) (tcp_proc s)) = Ret ()"
    using cleanup_ended(2) [OF inv run] run by simp
  have step: "tcp_step env s (Session (Eof i)) s1"
    using Cons.prems(2) ret by (auto simp: tcp_step_simps s1_def prod_eq_iff intro!: exI [of _ "Ret ()"])
  have routine: "routine (tcp_proc s1) = (routine (tcp_proc s))(i := Ended)"
    using run by (simp add: s1_def cleanup_routine set_routine_def)
  then have live: "live_routines (tcp_proc s1) = live_routines (tcp_proc s) - {i}"
    by (auto simp: live_routines_def)
  have "tcp_phase s1 = Waiting" using Cons.prems(2) by (simp add: s1_def)
  moreover have "routine (tcp_proc s1) j = Running" if "j \<in> set sids" for j
    using Cons.prems(3,4) that by (auto simp: routine)
  ultimately obtain s' where "tcp_run env s1 (map (\<lambda>i. Session (Eof i)) sids) s'" "tcp_phase s' = Waiting"
      "tcp_inv env s'" "live_routines (tcp_proc s') = live_routines (tcp_proc s1) - set sids"
    using Cons.IH [of s1] Cons.prems(3) tcp_step_inv [OF assms step Cons.prems(1)] by auto
  with step live show ?case by (auto intro!: run_cons)
qed

section \<open>Websocket\<close>

text \<open>
  An HTTP server whose handler runs once for every request, with a wait group of its own:
  \<open>req_phase\<close> and \<open>req_wg\<close> are the phase and the wait group of the handler of each request,
  \<open>owner\<close> the request in which a session was made. \<open>wss_phase\<close> is where \<open>ListenAndServe\<close> is:
  serving until the HTTP server returns an error. It does so after \<open>Shutdown\<close>, which is
  documented to make it return \<open>ErrServerClosed\<close> at once (\<open>WsServeErr\<close>), and when its listener
  fails (\<open>WsNetErr\<close>).
\<close>

record wssBroker =
  wss_opts :: BrokerOpts
  wss_closed :: bool
  wss_phase :: phase
  req_phase :: "nat \<Rightarrow> phase"
  req_wg :: "nat \<Rightarrow> nat"
  nreq :: nat
  owner :: "string \<Rightarrow> nat"
  wss_proc :: broker

definition startWebsocketBroker :: "broker \<Rightarrow> BrokerOpts \<Rightarrow> wssBroker result" where
  "startWebsocketBroker st opts =
     Ret \<lparr>wss_opts = opts, wss_closed = False, wss_phase = Idle, req_phase = \<lambda>_. Idle, req_wg = \<lambda>_. 0,
          nreq = 0, owner = \<lambda>_. 0, wss_proc = st\<rparr>"

datatype wss_event =
    WsServe | WsServeErr | WsNetErr | WsShutdown | WsRequest | WsConn nat | WsErr nat | WsWaitOver nat
  | WsSession event

text \<open>The session that an event is about; a heart-beat job is about none of the wait groups.\<close>

fun event_session :: "event \<Rightarrow> string option" where
  "event_session (Incoming sid raw) = Some sid"
| "event_session (Eof sid) = Some sid"
| "event_session (Hangup sid) = Some sid"
| "event_session _ = None"

text \<open>A step of a session, with the wait group of its request.\<close>

definition wss_broker_step ::
  "env \<Rightarrow> BrokerOpts \<Rightarrow> event \<Rightarrow> string \<Rightarrow> wssBroker \<Rightarrow> wssBroker \<times> unit result" where
  "wss_broker_step env opts e sid s =
     (case broker_step env opts e ((wss_proc s)\<lparr>wgSessions := req_wg s (owner s sid)\<rparr>) of
        (p, r) \<Rightarrow> (s\<lparr>wss_proc := p, req_wg := (req_wg s)(owner s sid := wgSessions p)\<rparr>, r))"

definition wss_accept :: "env \<Rightarrow> nat \<Rightarrow> wssBroker \<Rightarrow> wssBroker" where
  "wss_accept env k s =
     s\<lparr>wss_proc := accept env (wss_opts s) (wss_proc s), req_wg := (req_wg s)(k := req_wg s k + 1),
       owner := (owner s)(newUUID env (uuids (wss_proc s)) := k)\<rparr>"

inductive wss_step :: "env \<Rightarrow> wssBroker \<Rightarrow> wss_event \<Rightarrow> wssBroker \<Rightarrow> bool" for env where
  ws_serve: "wss_step env s WsServe (s\<lparr>wss_phase := Accepting\<rparr>)"
    if "wss_phase s = Idle"
| ws_serve_err: "wss_step env s WsServeErr (s\<lparr>wss_phase := Returned\<rparr>)"
    if "wss_phase s = Accepting" and "wss_closed s"
| ws_net_err: "wss_step env s WsNetErr (s\<lparr>wss_phase := Returned\<rparr>)"
    if "wss_phase s = Accepting"
| ws_shutdown: "wss_step env s WsShutdown (s\<lparr>wss_closed := True\<rparr>)"
    if "wss_phase s \<noteq> Crashed"
| ws_request: "wss_step env s WsRequest
      (s\<lparr>req_phase := (req_phase s)(nreq s := Accepting), nreq := Suc (nreq s)\<rparr>)"
    if "wss_phase s = Accepting" and "\<not> wss_closed s"
| ws_conn: "wss_step env s (WsConn k) (wss_accept env k s)"
    if "wss_phase s \<noteq> Crashed" and "req_phase s k = Accepting"
| ws_err: "wss_step env s (WsErr k) (s\<lparr>req_phase := (req_phase s)(k := Waiting)\<rparr>)"
    if "wss_phase s \<noteq> Crashed" and "req_phase s k = Accepting"
| ws_waited: "wss_step env s (WsWaitOver k) (s\<lparr>req_phase := (req_phase s)(k := Returned)\<rparr>)"
    if "wss_phase s \<noteq> Crashed" and "req_phase s k = Waiting" and "req_wg s k = 0"
| ws_session: "wss_step env s (WsSession e) (s'\<lparr>wss_phase := (if is_panic r then Crashed else wss_phase s')\<rparr>)"
    if "wss_phase s \<noteq> Crashed" and "event_session e = Some sid"
      and "wss_broker_step env (wss_opts s) e sid s = (s', r)"
| ws_tick: "wss_step env s (WsSession (Tick j)) (s\<lparr>wss_proc := fst (broker_step env (wss_opts s) (Tick j) (wss_proc s))\<rparr>)"
    if "wss_phase s \<noteq> Crashed"

code_pred (modes: i \<Rightarrow> i \<Rightarrow> i \<Rightarrow> o \<Rightarrow> bool) wss_step .

inductive wss_run :: "env \<Rightarrow> wssBroker \<Rightarrow> wss_event list \<Rightarrow> wssBroker \<Rightarrow> bool" for env where
  wss_nil: "wss_run env s [] s"
| wss_cons: "wss_run env s (x # xs) s''" if "wss_step env s x s'" and "wss_run env s' xs s''"

inductive_simps wss_step_simps:
  "wss_step env s WsServe s'" "wss_step env s WsServeErr s'" "wss_step env s WsNetErr s'"
  "wss_step env s WsShutdown s'"
  "wss_step env s WsRequest s'" "wss_step env s (WsConn k) s'" "wss_step env s (WsErr k) s'"
  "wss_step env s (WsWaitOver k) s'" "wss_step env s (WsSession e) s'"

text \<open>
  The wait group of every request counts its session goroutines that have not returned (the
  field \<open>wgSessions\<close> of the process only carries the group that is loaded for a step).
\<close>

definition request_routines :: "nat \<Rightarrow> wssBroker \<Rightarrow> string set" where
  "request_routines k s = {sid \<in> live_routines (wss_proc s). owner s sid = k}"

definition wss_inv :: "env \<Rightarrow> wssBroker \<Rightarrow> bool" where
  "wss_inv env s \<longleftrightarrow>
     core_inv (wss_proc s) \<and>
     {sid. routine (wss_proc s) sid \<noteq> NotStarted} \<subseteq> newUUID env ` {..< uuids (wss_proc s)} \<and>
     (\<forall>k. req_wg s k = card (request_routines k s)) \<and>
     (\<forall>k. req_phase s k = Returned \<or> req_phase s k = Idle \<longrightarrow> request_routines k s = {}) \<and>
     (\<forall>k\<ge>nreq s. req_phase s k = Idle)"

lemma request_routines_finite: "wss_inv env s \<Longrightarrow> finite (request_routines k s)"
  by (rule finite_subset [of _ "newUUID env ` {..< uuids (wss_proc s)}"])
    (auto simp: wss_inv_def request_routines_def live_routines_def)

lemma core_inv_wg [simp]: "core_inv (st\<lparr>wgSessions := n\<rparr>) = core_inv st"
  by (simp add: core_inv_def)

lemma cleanup_wg: "wgSessions (fst (cleanup sid st)) = wgSessions st - 1" "uuids (fst (cleanup sid st)) = uuids st"
  by (simp_all add: cleanup_def Let_def close_conn_def update_session_def split: option.splits)

lemma broker_step_group:
  assumes "event_session e = Some sid" and "st' = fst (broker_step env opts e st)"
  shows "uuids st \<le> uuids st' \<and>
    (routine st' = routine st \<and> wgSessions st' = wgSessions st \<or>
     routine st sid = Running \<and> routine st' = (routine st)(sid := Stuck) \<and> wgSessions st' = wgSessions st \<or>
     routine st sid = Running \<and> routine st' = (routine st)(sid := Ended) \<and> wgSessions st' = wgSessions st - 1)"
proof (cases e)
  case (Incoming i raw)
  obtain st1 r where r: "handle_raw env i raw st = (st1, r)" by fastforce
  then have "routine st1 = routine st" "wgSessions st1 = wgSessions st" "uuids st \<le> uuids st1"
    using handle_raw_threads [of st env i raw] by (simp_all add: same_threads_def)
  with r Incoming assms show ?thesis
    by (cases r) (auto simp: cleanup_routine cleanup_wg set_routine_def)
next
  case (Hangup i)
  with assms show ?thesis by (simp add: close_conn_def update_session_def)
qed (use assms in \<open>auto simp: cleanup_routine cleanup_wg set_routine_def\<close>)

lemma wss_session_inv:
  assumes inv: "wss_inv env s" and sid: "event_session e = Some sid"
  shows "wss_inv env (fst (wss_broker_step env opts e sid s))"
proof -
  let ?st = "(wss_proc s)\<lparr>wgSessions := req_wg s (owner s sid)\<rparr>"
  define p where "p = fst (broker_step env opts e ?st)"
  let ?s' = "s\<lparr>wss_proc := p, req_wg := (req_wg s)(owner s sid := wgSessions p)\<rparr>"
  have core: "core_inv p" unfolding p_def by (rule broker_step_core) (use inv in \<open>simp add: wss_inv_def\<close>)
  have group: "uuids (wss_proc s) \<le> uuids p" "routine p = routine (wss_proc s) \<and> wgSessions p = req_wg s (owner s sid) \<or>
     routine (wss_proc s) sid = Running \<and> routine p = (routine (wss_proc s))(sid := Stuck) \<and>
       wgSessions p = req_wg s (owner s sid) \<or>
     routine (wss_proc s) sid = Running \<and> routine p = (routine (wss_proc s))(sid := Ended) \<and>
       wgSessions p = req_wg s (owner s sid) - 1"
    using broker_step_group [OF sid refl, where st = ?st and env = env and opts = opts] by (simp_all add: p_def)
  have started: "{i. routine p i \<noteq> NotStarted} \<subseteq> newUUID env ` {..< uuids p}"
  proof -
    have "{i. routine p i \<noteq> NotStarted} = {i. routine (wss_proc s) i \<noteq> NotStarted}"
      using group(2) by (auto split: if_splits)
    moreover have "newUUID env ` {..< uuids (wss_proc s)} \<subseteq> newUUID env ` {..< uuids p}" using group(1) by auto
    ultimately show ?thesis using inv unfolding wss_inv_def by blast
  qed
  have shrink: "request_routines k ?s' \<subseteq> request_routines k s" for k
    using group(2) by (auto simp: request_routines_def live_routines_def split: if_splits)
  have count: "req_wg ?s' k = card (request_routines k ?s')" for k
  proof (cases "routine (wss_proc s) sid = Running \<and> routine p = (routine (wss_proc s))(sid := Ended) \<and>
       wgSessions p = req_wg s (owner s sid) - 1")
    case True
    then have "request_routines k ?s' = request_routines k s - {sid}"
      by (auto simp: request_routines_def live_routines_def)
    moreover have "sid \<in> request_routines (owner s sid) s" "k \<noteq> owner s sid \<Longrightarrow> sid \<notin> request_routines k s"
      using True by (auto simp: request_routines_def live_routines_def)
    ultimately show ?thesis using True inv by (auto simp: wss_inv_def card_Diff_singleton)
  next
    case False
    then have "live_routines p = live_routines (wss_proc s)" "wgSessions p = req_wg s (owner s sid)"
      using group(2) by (auto simp: live_routines_def split: if_splits)
    then show ?thesis using inv by (simp add: wss_inv_def request_routines_def)
  qed
  have "fst (wss_broker_step env opts e sid s) = ?s'"
    by (simp add: wss_broker_step_def p_def case_prod_beta)
  moreover have "request_routines k ?s' = {}" if "request_routines k s = {}" for k
    using shrink [of k] that by blast
  ultimately show ?thesis using core started count inv by (simp add: wss_inv_def)
qed

lemma wss_accept_inv:
  assumes "inj (newUUID env)" and inv: "wss_inv env s" and k: "req_phase s k = Accepting"
  shows "wss_inv env (wss_accept env k s)"
proof -
  let ?sid = "newUUID env (uuids (wss_proc s))" and ?s' = "wss_accept env k s"
  have "?sid \<notin> newUUID env ` {..< uuids (wss_proc s)}" using assms(1) by (auto dest: injD)
  with inv have fresh: "routine (wss_proc s) ?sid = NotStarted" by (auto simp: wss_inv_def)
  then have new: "request_routines j ?s' = (if j = k then insert ?sid (request_routines j s) else request_routines j s)"
      "?sid \<notin> request_routines j s" for j
    by (auto simp: request_routines_def wss_accept_def accept_live, auto simp: live_routines_def)
  have "core_inv (wss_proc ?s')"
    using inv by (simp add: wss_inv_def wss_accept_def accept_def core_inv_def Let_def)
  moreover have "{sid. routine (wss_proc ?s') sid \<noteq> NotStarted} \<subseteq> newUUID env ` {..< uuids (wss_proc ?s')}"
    using inv by (auto simp: wss_inv_def wss_accept_def accept_def Let_def lessThan_Suc)
  moreover have "req_wg ?s' j = card (request_routines j ?s')" for j
    using new [of j] new(2) [of k] inv request_routines_finite [OF inv, of k]
    by (simp add: wss_accept_def wss_inv_def)
  moreover have "req_phase ?s' = req_phase s" "nreq ?s' = nreq s" by (simp_all add: wss_accept_def)
  ultimately show ?thesis using inv new(1) k by (auto simp: wss_inv_def)
qed

lemma wss_step_inv:
  assumes "inj (newUUID env)" and "wss_step env s x s'" and inv: "wss_inv env s"
  shows "wss_inv env s'"
  using assms(2)
proof cases
  case (ws_session e sid s1 r)
  with wss_session_inv [OF inv ws_session(4), of "wss_opts s"]
  show ?thesis by (simp add: wss_inv_def request_routines_def)
next
  case (ws_conn k)
  with wss_accept_inv [OF assms(1) inv] show ?thesis by simp
next
  case (ws_waited k)
  then have "request_routines k s = {}"
    using inv request_routines_finite [OF inv, of k] by (simp add: wss_inv_def)
  with ws_waited inv show ?thesis by (auto simp: wss_inv_def request_routines_def)
next
  case (ws_tick j)
  have "same_core (wss_proc s) (fst (broker_step env opts (Tick j) (wss_proc s)))" for opts
    using same_core_tick by (simp add: same_core_refl split: option.splits)
  then show ?thesis
    using inv broker_step_core [of "wss_proc s" env "wss_opts s" "Tick j"] ws_tick
    by (fastforce simp: wss_inv_def request_routines_def live_routines_def same_core_def)
next
  case ws_request
  then show ?thesis using inv by (auto simp: wss_inv_def request_routines_def)
qed (use inv in \<open>auto simp: wss_inv_def request_routines_def\<close>)

lemma wss_inv_run: "wss_run env s xs s' \<Longrightarrow> inj (newUUID env) \<Longrightarrow> wss_inv env s \<Longrightarrow> wss_inv env s'"
  by (induction rule: wss_run.induct) (auto dest: wss_step_inv)

lemma startWebsocketBroker_inv:
  "startWebsocketBroker (broker_start empty_registry) opts = Ret s \<Longrightarrow> wss_inv env s \<and> wss_phase s = Idle"
  using process_inv_start [of env]
  by (auto simp: startWebsocketBroker_def wss_inv_def request_routines_def live_routines_def broker_start_def
      process_inv_def)

section \<open>The command\<close>

text \<open>The broker that \<open>StartBroker\<close> returns behind its interface.\<close>

datatype Broker = Tcp tcpBroker | Wss wssBroker

definition start_broker ::
  "(string \<Rightarrow> go_error option) \<Rightarrow> broker \<Rightarrow> BrokerOpts \<Rightarrow> Broker option result" where
  "start_broker net_Listen st =
     StartBroker (\<lambda>opts. map_outcome id Tcp (startTcpBroker net_Listen st opts))
                 (\<lambda>opts. map_outcome id Wss (startWebsocketBroker st opts))"

text \<open>
  \<^verbatim>\<open>stompd\<close>: the options that \<open>main\<close> makes of the flag \<^verbatim>\<open>-t\<close> and the arguments after the
  flags (\<open>flag.Arg\<close> is empty beyond them), and what it starts: \<open>Inl\<close> is the exit code of
  \<open>log.Fatalln\<close>, and calling \<open>ListenAndServe\<close> on a nil broker panics.
\<close>

definition flag_Arg :: "string list \<Rightarrow> nat \<Rightarrow> string" where
  "flag_Arg args i = (if i < length args then args ! i else '''')"

definition stompd_opts :: "string \<Rightarrow> string list \<Rightarrow> BrokerOpts" where
  "stompd_opts transport args =
     (let host = ''localhost'';
          port = DefaultPort;
          host = (if flag_Arg args 0 \<noteq> '''' then flag_Arg args 0 else host);
          port = (if flag_Arg args 1 \<noteq> '''' then flag_Arg args 1 else port);
          t = TransportTCP;
          t = (if transport = ''websocket'' then TransportWebsocket else t)
      in \<lparr>Transport = t, Host = host, Port = port, LoginFunc = None,
          HeartbeatSendIntervalMsec = 5000, HeartbeatReceiveIntervalMsec = 5000\<rparr>)"

definition stompd_main ::
  "(string \<Rightarrow> go_error option) \<Rightarrow> broker \<Rightarrow> string \<Rightarrow> string list \<Rightarrow> (int + Broker) result" where
  "stompd_main net_Listen st transport args =
     (case start_broker net_Listen st (stompd_opts transport args) of
        Fail err \<Rightarrow> Ret (Inl 1)
      | Ret None \<Rightarrow> Panic NilDeref
      | Ret (Some b) \<Rightarrow> Ret (Inr b)
      | Panic p \<Rightarrow> Panic p
      | Block \<Rightarrow> Block)"

lemma stompd_opts_values:
  "Transport (stompd_opts t args) = (if t = ''websocket'' then TransportWebsocket else TransportTCP)"
  "Host (stompd_opts t args) \<noteq> ''''" "Port (stompd_opts t args) \<noteq> ''''"
  "HeartbeatSendIntervalMsec (stompd_opts t args) = 5000"
  "HeartbeatReceiveIntervalMsec (stompd_opts t args) = 5000"
  by (simp_all add: stompd_opts_def Let_def)

lemma stompd_opts_default: "default_opts (stompd_opts t args) = stompd_opts t args"
  unfolding default_opts_def by (simp add: stompd_opts_values Let_def)

section \<open>Properties\<close>

text \<open>
  C15. \<open>ListenAndServe\<close> of the TCP server returns only when the goroutine of every session has
  ended, whatever happens in whatever order between the start of the broker and the return.
\<close>

theorem tcp_returns_after_sessions:
  assumes "inj (newUUID env)" and "startTcpBroker listen (broker_start empty_registry) opts = Ret s0"
    and "tcp_run env s0 xs s" and "tcp_phase s = Returned"
  shows "routine (tcp_proc s) sid \<notin> {Running, Stuck} \<and> wgSessions (tcp_proc s) = 0"
proof -
  have inv: "tcp_inv env s"
    using tcp_inv_run [OF assms(1,3)] startTcpBroker_inv [OF assms(2)] by blast
  with assms(4) have live: "live_routines (tcp_proc s) = {}" by (simp add: tcp_inv_def)
  with process_inv_wait [of env "tcp_proc s"] inv show ?thesis
    by (auto simp: tcp_inv_def live_routines_def)
qed

definition demo_tcp :: tcpBroker where
  "demo_tcp = \<lparr>tcp_opts = demo_opts, listener_closed = False, tcp_phase = Idle,
               tcp_proc = broker_start empty_registry\<rparr>"

lemma demo_tcp_start: "startTcpBroker (\<lambda>_. None) (broker_start empty_registry) demo_opts = Ret demo_tcp"
  by (simp add: startTcpBroker_def demo_tcp_def)

theorem tcp_returns_after_sessions_witness:
  "\<exists>s. tcp_run demo_env demo_tcp [Serve, AcceptConn, Shutdown, AcceptErr, Session (Eof ''u''), WaitOver] s \<and>
     routine (tcp_proc s) ''u'' \<notin> {Running, Stuck}"
proof -
  define s where "s = demo_tcp\<lparr>listener_closed := True, tcp_phase := Returned, tcp_proc :=
    fst (broker_step demo_env demo_opts (Eof ''u'') (fst (broker_step demo_env demo_opts Accept
      ((broker_start empty_registry)\<lparr>wgSessions := 0\<rparr>))))\<rparr>"
  have run: "tcp_run demo_env demo_tcp [Serve, AcceptConn, Shutdown, AcceptErr, Session (Eof ''u''), WaitOver] s"
    by (rule run_cons [rotated], rule run_cons [rotated], rule run_cons [rotated], rule run_cons [rotated],
        rule run_cons [rotated], rule run_cons [rotated], rule run_nil)
      (simp_all add: tcp_step_simps s_def demo_tcp_def demo_env_def accept_def broker_start_def cleanup_def
        set_routine_def close_conn_def update_session_def NewSession_def Let_def prod_eq_iff)
  have "tcp_phase s = Returned" by (simp add: s_def)
  from tcp_returns_after_sessions [OF demo_env_uuids demo_tcp_start run this, of "''u''"] run
  show ?thesis by blast
qed

text \<open>
  C16. A session that is stuck keeps the TCP server from ever returning: no continuation,
  \<open>Shutdown\<close> and signals included, makes \<open>ListenAndServe\<close> return. (A publisher gets stuck when a
  subscriber has gone without DISCONNECT.)
\<close>

theorem stuck_session_blocks_return:
  assumes "inj (newUUID env)" and "tcp_inv env s" and "routine (tcp_proc s) sid = Stuck"
    and "tcp_run env s xs s'"
  shows "tcp_phase s' \<noteq> Returned \<and> routine (tcp_proc s') sid = Stuck"
proof -
  have "tcp_inv env s' \<and> routine (tcp_proc s') sid = Stuck"
    by (rule tcp_run_inv [OF assms(4), where P = "\<lambda>s. tcp_inv env s \<and> routine (tcp_proc s) sid = Stuck"])
      (use assms(2,3) tcp_step_inv [OF assms(1)] tcp_step_stuck [OF assms(1)] in blast)+
  then show ?thesis by (auto simp: tcp_inv_def live_routines_def)
qed

definition demo_stuck :: tcpBroker where
  "demo_stuck = demo_tcp\<lparr>tcp_phase := Accepting, tcp_proc := set_routine ''u'' Stuck
     (accept demo_env demo_opts (broker_start empty_registry))\<rparr>"

theorem stuck_session_blocks_return_witness:
  "\<exists>s'. tcp_run demo_env demo_stuck [Shutdown, AcceptErr, Session (Eof ''u'')] s' \<and> tcp_phase s' \<noteq> Returned"
proof -
  have acc: "process_inv demo_env (accept demo_env demo_opts (broker_start empty_registry))"
    using process_inv_step [OF demo_env_uuids process_inv_start, of demo_opts Accept] by simp
  have run: "routine (accept demo_env demo_opts (broker_start empty_registry)) ''u'' = Running"
    by (simp add: accept_def demo_env_def broker_start_def Let_def)
  have inv: "tcp_inv demo_env demo_stuck"
    using acc threads_inv_stuck [OF _ run]
    by (simp add: tcp_inv_def demo_stuck_def process_inv_def set_routine_def core_inv_def)
  have stuck: "routine (tcp_proc demo_stuck) ''u'' = Stuck" by (simp add: demo_stuck_def set_routine_def)
  have "tcp_run demo_env demo_stuck [Shutdown, AcceptErr, Session (Eof ''u'')]
      (demo_stuck\<lparr>listener_closed := True, tcp_phase := Waiting\<rparr>)"
    by (rule run_cons [rotated], rule run_cons [rotated], rule run_cons [rotated], rule run_nil)
      (simp_all add: tcp_step_simps demo_stuck_def set_routine_def prod_eq_iff)
  with stuck_session_blocks_return [OF demo_env_uuids inv stuck this] show ?thesis by blast
qed

text \<open>
  C17. The TCP server can be brought down: from \<open>Shutdown\<close> on no session is added, whatever happens,
  and without stuck sessions, once \<open>Accept\<close> has failed and every session has come to its end, in
  whatever order, \<open>Wait\<close> returns and so does \<open>ListenAndServe\<close>; this is the only outcome of these
  steps.
\<close>

theorem shutdown_terminates:
  assumes inj: "inj (newUUID env)" and inv: "tcp_inv env s" "tcp_phase s = Accepting"
    and no_stuck: "\<And>sid. routine (tcp_proc s) sid \<noteq> Stuck"
    and sids: "distinct sids" "set sids = live_routines (tcp_proc s)"
    and xs: "xs = Shutdown # AcceptErr # map (\<lambda>i. Session (Eof i)) sids @ [WaitOver]"
  shows "(\<exists>s'. tcp_run env s xs s') \<and> (\<forall>s'. tcp_run env s xs s' \<longrightarrow> tcp_phase s' = Returned) \<and>
    (\<forall>ys s'. tcp_run env s (Shutdown # ys) s' \<longrightarrow> live_routines (tcp_proc s') \<subseteq> live_routines (tcp_proc s))"
proof -
  let ?s = "s\<lparr>listener_closed := True, tcp_phase := Waiting\<rparr>"
  have start: "tcp_step env s Shutdown (s\<lparr>listener_closed := True\<rparr>)" "tcp_step env (s\<lparr>listener_closed := True\<rparr>) AcceptErr ?s"
    using inv(2) by (simp_all add: tcp_step_simps)
  have "tcp_inv env ?s" using inv by (simp add: tcp_inv_def)
  moreover have "routine (tcp_proc ?s) i = Running" if "i \<in> set sids" for i
    using that no_stuck [of i] by (auto simp: sids(2) live_routines_def)
  ultimately obtain s1 where s1: "tcp_run env ?s (map (\<lambda>i. Session (Eof i)) sids) s1" "tcp_phase s1 = Waiting"
      "tcp_inv env s1" "live_routines (tcp_proc s1) = live_routines (tcp_proc ?s) - set sids"
    using tcp_drain [OF inj, of ?s sids] sids(1) by auto
  then have "wgSessions (tcp_proc s1) = 0"
    using process_inv_wait [of env "tcp_proc s1"] sids(2) by (simp add: tcp_inv_def)
  then have last: "tcp_run env s1 [WaitOver] (s1\<lparr>tcp_phase := Returned\<rparr>)"
    using s1(2) by (auto intro!: run_cons run_nil simp: tcp_step_simps)
  have "tcp_run env s xs (s1\<lparr>tcp_phase := Returned\<rparr>)"
    unfolding xs by (rule run_cons [OF start(1) run_cons [OF start(2) tcp_run_append [OF s1(1) last]]])
  then have run: "(\<exists>s'. tcp_run env s xs s') \<and> (\<forall>s'. tcp_run env s xs s' \<longrightarrow> tcp_phase s' = Returned)"
    using tcp_run_unique [of env s xs] by fastforce
  have "live_routines (tcp_proc s') \<subseteq> live_routines (tcp_proc s)" if "tcp_run env s (Shutdown # ys) s'" for ys s'
  proof -
    from that obtain s1 where "tcp_step env s Shutdown s1" "tcp_run env s1 ys s'" by (rule tcp_run_consE)
    then show ?thesis using tcp_run_closed [of env s1 ys s'] by (auto simp: tcp_step_simps)
  qed
  with run show ?thesis by blast
qed

theorem shutdown_terminates_witness:
  "\<exists>s'. tcp_run demo_env (demo_tcp\<lparr>tcp_phase := Accepting\<rparr>) [Shutdown, AcceptErr, WaitOver] s' \<and> tcp_phase s' = Returned"
proof -
  have live: "live_routines (tcp_proc demo_tcp) = {}" "routine (tcp_proc demo_tcp) sid \<noteq> Stuck" for sid
    by (simp_all add: demo_tcp_def broker_start_def live_routines_def)
  have inv: "tcp_inv demo_env (demo_tcp\<lparr>tcp_phase := Accepting\<rparr>)"
    using process_inv_start by (simp add: tcp_inv_def demo_tcp_def)
  from shutdown_terminates [OF demo_env_uuids inv, of "[]"] live
  show ?thesis by simp blast
qed

text \<open>
  C21. The websocket server: the wait group of every request counts its live sessions, so that its
  handler returns only after them. \<open>ListenAndServe\<close> itself, however, returns as soon as the HTTP
  server is shut down, with every session goroutine as it was.
\<close>

theorem websocket_shutdown_abandons_sessions:
  assumes "inj (newUUID env)" and "startWebsocketBroker (broker_start empty_registry) opts = Ret s0"
    and "wss_run env s0 xs s"
  shows "req_wg s k = card (request_routines k s) \<and>
    (req_phase s k = Returned \<longrightarrow> request_routines k s = {}) \<and>
    (wss_phase s = Accepting \<longrightarrow>
      (\<exists>s'. wss_run env s [WsShutdown, WsServeErr] s' \<and> wss_phase s' = Returned \<and>
         routine (wss_proc s') = routine (wss_proc s)))"
proof -
  have inv: "wss_inv env s"
    using wss_inv_run [OF assms(3,1)] startWebsocketBroker_inv [OF assms(2)] by blast
  have "wss_run env s [WsShutdown, WsServeErr] (s\<lparr>wss_closed := True, wss_phase := Returned\<rparr>)"
    if "wss_phase s = Accepting"
    by (rule wss_cons [rotated], rule wss_cons [rotated], rule wss_nil)
      (simp_all add: wss_step_simps that)
  then show ?thesis using inv by (fastforce simp: wss_inv_def)
qed

definition demo_wss :: wssBroker where
  "demo_wss = \<lparr>wss_opts = demo_opts, wss_closed = False, wss_phase = Idle, req_phase = \<lambda>_. Idle,
     req_wg = \<lambda>_. 0, nreq = 0, owner = \<lambda>_. 0, wss_proc = broker_start empty_registry\<rparr>"

theorem websocket_shutdown_abandons_sessions_witness:
  "\<exists>s s'. wss_run demo_env demo_wss [WsServe, WsRequest, WsConn 0] s \<and>
     wss_run demo_env s [WsShutdown, WsServeErr] s' \<and> wss_phase s' = Returned \<and>
     routine (wss_proc s') ''u'' = Running"
proof -
  let ?s1 = "demo_wss\<lparr>wss_phase := Accepting, req_phase := (\<lambda>_. Idle)(0 := Accepting), nreq := 1\<rparr>"
  let ?s = "wss_accept demo_env 0 ?s1"
  have run: "wss_run demo_env demo_wss [WsServe, WsRequest, WsConn 0] ?s"
    by (rule wss_cons [rotated], rule wss_cons [rotated], rule wss_cons [rotated], rule wss_nil)
      (simp_all add: wss_step_simps demo_wss_def)
  have start: "startWebsocketBroker (broker_start empty_registry) demo_opts = Ret demo_wss"
    by (simp add: startWebsocketBroker_def demo_wss_def)
  have "wss_phase ?s = Accepting" "routine (wss_proc ?s) ''u'' = Running"
    by (simp_all add: wss_accept_def accept_def demo_wss_def demo_env_def broker_start_def Let_def)
  with websocket_shutdown_abandons_sessions [OF demo_env_uuids start run] run show ?thesis by metis
qed

text \<open>
  C22. \<open>StartBroker\<close> returns a nil broker without an error exactly for a transport that is
  neither empty nor one of the two; \<open>stompd\<close> never asks for one, so it exits with code 1 when the
  TCP socket cannot be opened and otherwise serves with the transport of its flag.
\<close>

theorem nil_broker_iff:
  "(start_broker net_Listen st opts = Ret None \<longleftrightarrow>
      Transport opts \<notin> {'''', TransportTCP, TransportWebsocket}) \<and>
   (\<exists>r. stompd_main net_Listen st t args = Ret r \<and>
      (case r of
         Inl code \<Rightarrow> code = 1 \<and> t \<noteq> ''websocket'' \<and>
           net_Listen (Host (stompd_opts t args) @ '':'' @ Port (stompd_opts t args)) \<noteq> None
       | Inr b \<Rightarrow> (\<exists>w. b = Wss w \<and> t = ''websocket'') \<or> (\<exists>s. b = Tcp s \<and> t \<noteq> ''websocket'')))"
proof
  show "start_broker net_Listen st opts = Ret None \<longleftrightarrow> Transport opts \<notin> {'''', TransportTCP, TransportWebsocket}"
    using default_opts_values(3) [of opts]
    by (auto simp: start_broker_def StartBroker_def startTcpBroker_def startWebsocketBroker_def Let_def
        split: option.splits)
  show "\<exists>r. stompd_main net_Listen st t args = Ret r \<and>
      (case r of
         Inl code \<Rightarrow> code = 1 \<and> t \<noteq> ''websocket'' \<and>
           net_Listen (Host (stompd_opts t args) @ '':'' @ Port (stompd_opts t args)) \<noteq> None
       | Inr b \<Rightarrow> (\<exists>w. b = Wss w \<and> t = ''websocket'') \<or> (\<exists>s. b = Tcp s \<and> t \<noteq> ''websocket''))"
    by (cases "net_Listen (Host (stompd_opts t args) @ '':'' @ Port (stompd_opts t args))")
      (simp_all add: stompd_main_def start_broker_def StartBroker_def stompd_opts_default startTcpBroker_def
        startWebsocketBroker_def stompd_opts_values(1) Let_def)
qed

end
