(* ===== verification/Broker_Refinement.thy ===== *)
theory Broker_Refinement
  imports Broker_Behaviour
begin

text \<open>
  What the broker is for: a specification of publishing and subscribing without maps of
  maps, connections and bytes (\<open>spec_broker\<close>), and the proof that the process implements it,
  event by event, as long as its clients are polite: they subscribe with a new ID to a
  destination nobody else subscribes to, and leave by DISCONNECT. What goes wrong with
  other clients is in Broker_Behaviour and Subscriptions.
\<close>

section \<open>The registry of polite clients\<close>


definition drop_subs ::
  "(string \<Rightarrow> string \<Rightarrow> bool) \<Rightarrow> (string \<Rightarrow> (string \<times> string) option) \<Rightarrow> string \<Rightarrow> (string \<times> string) option" where
  "drop_subs P m d = (case m d of None \<Rightarrow> None | Some (i, s) \<Rightarrow> if P i s then None else Some (i, s))"

lemma drop_subs_Some [simp]:
  "drop_subs P m d = Some (i, s) \<longleftrightarrow> m d = Some (i, s) \<and> \<not> P i s"
  by (auto simp: drop_subs_def split: option.splits)

lemma drop_subs_twice: "drop_subs P (drop_subs Q m) = drop_subs (\<lambda>i s. P i s \<or> Q i s) m"
  by (auto simp: fun_eq_iff drop_subs_def split: option.splits)

lemma drop_subs_cong:
  "(\<And>d i s. m d = Some (i, s) \<Longrightarrow> P i s = Q i s) \<Longrightarrow> drop_subs P m = drop_subs Q m"
  by (auto simp: fun_eq_iff drop_subs_def split: option.splits)

lemma drop_subs_none: "(\<And>d i s. m d = Some (i, s) \<Longrightarrow> \<not> P i s) \<Longrightarrow> drop_subs P m = m"
  by (auto simp: fun_eq_iff drop_subs_def split: option.splits)

lemma drop_subs_one:
  assumes "\<And>d' s. m d' = Some (i, s) \<longleftrightarrow> d' = d \<and> s = sess"
  shows "m(d := None) = drop_subs (\<lambda>j s. j = i) m"
proof
  fix d'
  show "(m(d := None)) d' = drop_subs (\<lambda>j s. j = i) m d'"
  proof (cases "m d'")
    case (Some x)
    with assms [of d' "snd x"] assms [of d' sess] show ?thesis by (cases x) (auto simp: drop_subs_def)
  qed (simp add: drop_subs_def)
qed

lemma ex_map_upd: "m d = None \<Longrightarrow> (\<exists>d'. (m(d \<mapsto> x)) d' = Some y) \<longleftrightarrow> (\<exists>d'. m d' = Some y) \<or> y = x"
  by (metis fun_upd_apply option.distinct(1) option.inject)

text \<open>The three maps hold the same subscriptions.\<close>

definition tidy :: "registry \<Rightarrow> bool" where
  "tidy r \<longleftrightarrow>
     (\<forall>i d. subsToDestMap r i = Some d \<longleftrightarrow> (\<exists>s. subscriber_at r d = Some (i, s))) \<and>
     (\<forall>s i. (\<exists>ms. sessToSubsMap r s = Some ms \<and> i \<in> set ms) \<longleftrightarrow> (\<exists>d. subscriber_at r d = Some (i, s))) \<and>
     (\<forall>s ms. sessToSubsMap r s = Some ms \<longrightarrow> distinct ms) \<and>
     (\<forall>d s. subscriber_at r d \<noteq> Some ('''', s))"


lemma tidyD:
  assumes "tidy r"
  shows "subsToDestMap r i = Some d \<longleftrightarrow> (\<exists>s. subscriber_at r d = Some (i, s))"
    and "(\<exists>ms. sessToSubsMap r s = Some ms \<and> i \<in> set ms) \<longleftrightarrow> (\<exists>d. subscriber_at r d = Some (i, s))"
    and "sessToSubsMap r s = Some ms \<Longrightarrow> distinct ms"
    and "subscriber_at r d \<noteq> Some ('''', s)"
  using assms unfolding tidy_def by blast+

lemma tidy_empty: "tidy empty_registry" "subscriber_at empty_registry = Map.empty"
  by (auto simp: tidy_def empty_registry_def subscriber_at_def subs_at_def)

lemma tidy_add:
  assumes inv: "reg_inv r" and tidy: "tidy r" and ok: "i \<noteq> ''''" "d \<noteq> ''''"
    and free: "subscriber_at r d = None" "\<And>d' s. subscriber_at r d' \<noteq> Some (i, s)"
  shows "subscriber_at (fst (addSubscription d i mode sess r)) = (subscriber_at r)(d \<mapsto> (i, sess))"
    and "tidy (fst (addSubscription d i mode sess r))"
proof -
  let ?r' = "fst (addSubscription d i mode sess r)"
  note add = addSubscription_ok [OF ok inv, of mode sess]
  show subs: "subscriber_at ?r' = (subscriber_at r)(d \<mapsto> (i, sess))"
    by (simp add: fun_eq_iff subscriber_at_def subs_at_def add(2))
  have members: "(\<exists>ms. sessToSubsMap ?r' s = Some ms \<and> j \<in> set ms) \<longleftrightarrow>
      (\<exists>ms. sessToSubsMap r s = Some ms \<and> j \<in> set ms) \<or> s = sess \<and> j = i" for s j
    by (cases "sessToSubsMap r sess") (auto simp: add(4))
  have "(\<exists>d'. subscriber_at ?r' d' = Some (j, s)) \<longleftrightarrow>
      (\<exists>d'. subscriber_at r d' = Some (j, s)) \<or> s = sess \<and> j = i" for s j
    unfolding subs ex_map_upd [of "subscriber_at r" d, OF free(1)] by auto
  moreover have "subsToDestMap ?r' j = Some d' \<longleftrightarrow> (\<exists>s. subscriber_at ?r' d' = Some (j, s))" for j d'
    using tidyD(1) [OF tidy, of j d'] free by (simp add: subs add(3))
  moreover have "distinct ms" if "sessToSubsMap ?r' s = Some ms" for s ms
    using that tidyD(3) [OF tidy] by (auto simp: add(4) split: if_splits option.splits)
  moreover have "subscriber_at ?r' d' \<noteq> Some ('''', s)" for d' s
    using tidyD(4) [OF tidy, of d' s] ok by (auto simp: subs)
  ultimately show "tidy ?r'" unfolding tidy_def members using tidyD(2) [OF tidy] by simp
qed

lemma tidy_remove:
  assumes inv: "reg_inv r" and tidy: "tidy r" and sub: "subscriber_at r d = Some (i, sess)"
  shows "snd (removeSubscription i r) = Ret ()"
    and "subscriber_at (fst (removeSubscription i r)) = drop_subs (\<lambda>j s. j = i) (subscriber_at r)"
    and "tidy (fst (removeSubscription i r))"
proof -
  let ?r' = "fst (removeSubscription i r)"
  obtain info where info: "destToSubsMap r d = Some [(i, info)]" "sessionHandler info = sess"
    using sub by (auto simp: subscriber_at_iff [OF inv])
  have dest: "subsToDestMap r i = Some d" using sub tidyD(1) [OF tidy] by blast
  then have only: "subscriber_at r d' = Some (i, s) \<longleftrightarrow> d' = d \<and> s = sess" for d' s
    using sub tidyD(1) [OF tidy, of i d'] by auto
  obtain ms where ms: "sessToSubsMap r sess = Some ms" using sub tidyD(2) [OF tidy] by blast
  have "i \<noteq> ''''" using sub tidyD(4) [OF tidy] by blast
  with info dest ms
  have eq: "removeSubscription i r =
      (r\<lparr>sessToSubsMap := (sessToSubsMap r)(sess \<mapsto> removeAll i ms),
         destToSubsMap := (destToSubsMap r)(d := None), subsToDestMap := (subsToDestMap r)(i := None)\<rparr>, Ret ())"
    by (simp add: removeSubscription_def Let_def)
  then show "snd (removeSubscription i r) = Ret ()" by simp
  have maps: "subsToDestMap ?r' = (subsToDestMap r)(i := None)"
    "sessToSubsMap ?r' = (sessToSubsMap r)(sess \<mapsto> removeAll i ms)" by (simp_all add: eq)
  have "subscriber_at ?r' = (subscriber_at r)(d := None)"
    by (simp add: fun_eq_iff eq subscriber_at_def subs_at_def)
  also have "\<dots> = drop_subs (\<lambda>j s. j = i) (subscriber_at r)"
    using only by (rule drop_subs_one)
  finally show subs: "subscriber_at ?r' = drop_subs (\<lambda>j s. j = i) (subscriber_at r)" .
  have members: "(\<exists>ms. sessToSubsMap ?r' s = Some ms \<and> j \<in> set ms) \<longleftrightarrow>
      (\<exists>ms. sessToSubsMap r s = Some ms \<and> j \<in> set ms) \<and> j \<noteq> i" for s j
    using ms only tidyD(2) [OF tidy, of s i] by (cases "s = sess") (auto simp: maps)
  have "subsToDestMap ?r' j = Some d' \<longleftrightarrow> (\<exists>s. subscriber_at ?r' d' = Some (j, s))" for j d'
    using tidyD(1) [OF tidy, of j d'] by (auto simp: subs maps)
  moreover have "distinct ms'" if "sessToSubsMap ?r' s = Some ms'" for s ms'
    using that tidyD(3) [OF tidy, of s] ms by (auto simp: maps distinct_removeAll split: if_splits)
  moreover have "subscriber_at ?r' d' \<noteq> Some ('''', s)" for d' s
    using tidyD(4) [OF tidy, of d' s] by (simp add: subs)
  ultimately show "tidy ?r'" unfolding tidy_def members using tidyD(2) [OF tidy] by (simp add: subs)
qed

lemma tidy_remove_unknown:
  assumes tidy: "tidy r" and none: "\<And>d s. subscriber_at r d \<noteq> Some (i, s)"
  shows "fst (removeSubscription i r) = r \<and> is_fail (snd (removeSubscription i r))"
proof -
  have "subsToDestMap r i = None" using none tidyD(1) [OF tidy, of i] by (cases "subsToDestMap r i") auto
  then show ?thesis by (simp add: removeSubscription_def)
qed

lemma tidy_remove_all:
  "reg_inv r \<Longrightarrow> tidy r \<Longrightarrow> distinct ids \<Longrightarrow> (\<And>i. i \<in> set ids \<Longrightarrow> \<exists>d s. subscriber_at r d = Some (i, s)) \<Longrightarrow>
     snd (remove_all_subs ids r) = Ret () \<and> tidy (fst (remove_all_subs ids r)) \<and>
     subscriber_at (fst (remove_all_subs ids r)) = drop_subs (\<lambda>j s. j \<in> set ids) (subscriber_at r)"
proof (induction ids arbitrary: r)
  case Nil
  then show ?case by (simp add: drop_subs_none)
next
  case (Cons i ids)
  obtain d s where sub: "subscriber_at r d = Some (i, s)" using Cons.prems(4) [of i] by auto
  note rem = tidy_remove [OF Cons.prems(1,2) sub]
  obtain r' where r': "removeSubscription i r = (r', Ret ())"
    using rem(1) by (cases "removeSubscription i r") simp
  have "\<exists>d s. subscriber_at r' d = Some (j, s)" if j: "j \<in> set ids" for j
  proof -
    obtain d s where "subscriber_at r d = Some (j, s)" using Cons.prems(4) [of j] j by auto
    moreover have "j \<noteq> i" using j Cons.prems(3) by auto
    ultimately show ?thesis using rem(2) r' by auto
  qed
  from Cons.IH [OF _ _ _ this] Cons.prems(3) rem(2,3) r' reg_inv_remove [OF Cons.prems(1), of i]
  show ?case by (simp add: drop_subs_twice disj_commute)
qed

lemma tidy_cleanup:
  assumes inv: "reg_inv r" and tidy: "tidy r"
  shows "snd (cleanupSubscriptions ord sess r) = Ret ()"
    and "subscriber_at (fst (cleanupSubscriptions ord sess r)) = drop_subs (\<lambda>j s. s = sess) (subscriber_at r)"
    and "tidy (fst (cleanupSubscriptions ord sess r))"
proof -
  have "snd (cleanupSubscriptions ord sess r) = Ret () \<and>
    subscriber_at (fst (cleanupSubscriptions ord sess r)) = drop_subs (\<lambda>j s. s = sess) (subscriber_at r) \<and>
    tidy (fst (cleanupSubscriptions ord sess r))"
  proof (cases "sessToSubsMap r sess")
    case None
    then have "subscriber_at r d \<noteq> Some (i, sess)" for d i using tidyD(2) [OF tidy, of sess i] by auto
    then have "drop_subs (\<lambda>j s. s = sess) (subscriber_at r) = subscriber_at r"
      by (intro drop_subs_none) blast
    with None tidy show ?thesis by (simp add: cleanupSubscriptions_def)
  next
    case (Some ms)
    have ids: "i \<in> set ms \<longleftrightarrow> (\<exists>d. subscriber_at r d = Some (i, sess))" for i
      using tidyD(2) [OF tidy, of sess i] Some by auto
    have "distinct (slice_of ord ms)" using tidyD(3) [OF tidy Some] by simp
    then obtain r' where r': "remove_all_subs (slice_of ord ms) r = (r', Ret ())" and t: "tidy r'"
      and subs: "subscriber_at r' = drop_subs (\<lambda>j s. j \<in> set ms) (subscriber_at r)"
      using tidy_remove_all [OF inv tidy, of "slice_of ord ms"] ids
      by (cases "remove_all_subs (slice_of ord ms) r") auto
    have own: "i \<in> set ms \<longleftrightarrow> s = sess" if sub: "subscriber_at r d = Some (i, s)" for d i s
    proof
      assume "i \<in> set ms"
      then obtain d' where d': "subscriber_at r d' = Some (i, sess)" using ids by blast
      with sub have "d' = d" using tidyD(1) [OF tidy, of i d] tidyD(1) [OF tidy, of i d'] by auto
      with d' sub show "s = sess" by simp
    qed (use ids sub in blast)
    let ?r'' = "r'\<lparr>sessToSubsMap := (sessToSubsMap r')(sess := None)\<rparr>"
    have same: "subscriber_at ?r'' = subscriber_at r'" by (rule subscriber_at_cong) simp
    have drop: "subscriber_at r' = drop_subs (\<lambda>j s. s = sess) (subscriber_at r)"
      unfolding subs using own by (rule drop_subs_cong)
    then have "subscriber_at r' d \<noteq> Some (i, sess)" for d i by simp
    with t have "tidy ?r''"
      unfolding tidy_def same by (simp split: if_splits)
    with Some r' drop same show ?thesis by (simp add: cleanupSubscriptions_def)
  qed
  then show "snd (cleanupSubscriptions ord sess r) = Ret ()"
    "subscriber_at (fst (cleanupSubscriptions ord sess r)) = drop_subs (\<lambda>j s. s = sess) (subscriber_at r)"
    "tidy (fst (cleanupSubscriptions ord sess r))" by blast+
qed

text \<open>Publishing and acknowledging keep the subscriptions.\<close>

lemma subscriber_at_mark: "subscriber_at (mark_sent d i r) = subscriber_at r"
  by (auto simp: fun_eq_iff subscriber_at_def subs_at_def mark_sent_def split: option.splits list.splits)

lemma tidy_mark: "tidy (mark_sent d i r) = tidy r"
  unfolding tidy_def subscriber_at_mark by (simp add: mark_sent_def)

section \<open>The specification\<close>

text \<open>
  A message on its way to a subscriber: the number of the UUID that identifies it, the ID of
  the subscription, how many messages the subscription had been sent before, the transaction
  it was committed in, and the SEND frame.
\<close>

record delivery =
  dl_uuid :: nat
  dl_subs :: string
  dl_ack :: "32 word"
  dl_tx :: string
  dl_frame :: Frame

text \<open>
  Who is subscribed to a destination, how many messages that subscription has been sent, the
  messages waiting in a transaction, what every session has been sent, the sessions that are
  served, and how many UUIDs are in use.
\<close>

record spec_broker =
  subscriber :: "string \<Rightarrow> (string \<times> string) option"
  sent_count :: "string \<Rightarrow> 32 word"
  open_tx :: "string \<Rightarrow> Frame list option"
  inbox :: "string \<Rightarrow> delivery list"
  active :: "string set"
  minted :: nat

definition spec_start :: spec_broker where
  "spec_start = \<lparr>subscriber = \<lambda>_. None, sent_count = \<lambda>_. 0, open_tx = \<lambda>_. None, inbox = \<lambda>_. [], active = {}, minted = 0\<rparr>"

definition spec_publish :: "string \<Rightarrow> Frame \<Rightarrow> spec_broker \<Rightarrow> spec_broker" where
  "spec_publish tx f sp =
     (let d = getHeader f HdrKeyDestination
      in case subscriber sp d of
           None \<Rightarrow> sp
         | Some (i, s) \<Rightarrow>
             let x = \<lparr>dl_uuid = minted sp, dl_subs = i, dl_ack = sent_count sp d, dl_tx = tx, dl_frame = f\<rparr>
             in sp\<lparr>inbox := (inbox sp)(s := inbox sp s @ [x]),
                   sent_count := (sent_count sp)(d := sent_count sp d + 1), minted := Suc (minted sp)\<rparr>)"

definition connect_ok :: "BrokerOpts \<Rightarrow> Frame \<Rightarrow> bool" where
  "connect_ok opts f \<longleftrightarrow>
     (case LoginFunc opts of None \<Rightarrow> True
      | Some login \<Rightarrow> login (getHeader f HdrKeyLogin) (getHeader f HdrKeyPassCode) = None) \<and>
     accepts_12 f \<and>
     (getHeader f HdrKeyHeartBeat = '''' \<or> is_ret (parseHbVal (getHeader f HdrKeyHeartBeat)))"

definition ack_ok :: "Frame \<Rightarrow> spec_broker \<Rightarrow> bool" where
  "ack_ok f sp \<longleftrightarrow>
     (case scanAckNum (getHeader f HdrKeyID) of
        Ret (dest, i, n) \<Rightarrow> (case subscriber sp dest of Some (j, s) \<Rightarrow> j = i | None \<Rightarrow> False)
      | _ \<Rightarrow> False)"

text \<open>What a valid frame of a session does; \<open>None\<close> when it is refused.\<close>

definition spec_frame :: "BrokerOpts \<Rightarrow> string \<Rightarrow> Frame \<Rightarrow> spec_broker \<Rightarrow> spec_broker option" where
  "spec_frame opts sid f sp =
     (let cmd = command f; tx = getHeader f HdrKeyTransaction;
          i = getHeader f HdrKeyID; dest = getHeader f HdrKeyDestination
      in if cmd = CmdConnect \<or> cmd = CmdStomp then (if connect_ok opts f then Some sp else None)
         else if cmd = CmdSend then
           (if tx = '''' then Some (spec_publish '''' f sp)
            else map_option (\<lambda>q. sp\<lparr>open_tx := (open_tx sp)(tx \<mapsto> q @ [f])\<rparr>) (open_tx sp tx))
         else if cmd = CmdSubscribe then
           (if i = '''' \<or> dest = '''' then None
            else Some (sp\<lparr>subscriber := (subscriber sp)(dest \<mapsto> (i, sid)), sent_count := (sent_count sp)(dest := 0)\<rparr>))
         else if cmd = CmdUnsubscribe then
           (if \<exists>d s. subscriber sp d = Some (i, s)
            then Some (sp\<lparr>subscriber := drop_subs (\<lambda>j s. j = i) (subscriber sp)\<rparr>) else None)
         else if cmd = CmdAck then (if ack_ok f sp then Some sp else None)
         else if cmd = CmdBegin then
           (if tx = '''' \<or> open_tx sp tx \<noteq> None then None
            else Some (sp\<lparr>open_tx := (open_tx sp)(tx \<mapsto> [])\<rparr>))
         else if cmd = CmdCommit then map_option (\<lambda>q. fold (spec_publish tx) q sp) (open_tx sp tx)
         else if cmd = CmdAbort then
           map_option (\<lambda>_. sp\<lparr>open_tx := (open_tx sp)(tx := None)\<rparr>) (open_tx sp tx)
         else if cmd = CmdDisconnect then
           Some (sp\<lparr>subscriber := drop_subs (\<lambda>j s. s = sid) (subscriber sp), active := active sp - {sid}\<rparr>)
         else Some sp)"

text \<open>An event: a refused frame, a lost or closed connection end the session.\<close>

fun spec_event :: "env \<Rightarrow> BrokerOpts \<Rightarrow> event \<Rightarrow> spec_broker \<Rightarrow> spec_broker" where
  "spec_event env opts Accept sp =
     sp\<lparr>active := insert (newUUID env (minted sp)) (active sp), minted := Suc (minted sp)\<rparr>"
| "spec_event env opts (Incoming sid raw) sp =
     (case NewFrameFromBytes raw of
        Ret f \<Rightarrow>
          (case (if Validate ClientFrame f = Ret () then spec_frame opts sid f sp else None) of
             Some sp' \<Rightarrow> sp'
           | None \<Rightarrow> sp\<lparr>active := active sp - {sid}\<rparr>)
      | _ \<Rightarrow> sp)"
| "spec_event env opts (Eof sid) sp = sp\<lparr>active := active sp - {sid}\<rparr>"
| "spec_event env opts (Hangup sid) sp = sp\<lparr>active := active sp - {sid}\<rparr>"
| "spec_event env opts (Tick j) sp = sp"

text \<open>
  Polite clients: they send frames that parse while they are served; they subscribe with an
  ID that is not in use to a destination that has no subscriber; they name a destination when
  they send; an acknowledgement has the form the broker gave it; and when their session ends,
  or is ended by a frame that is refused, they have no subscription left.
\<close>

definition idle :: "string \<Rightarrow> spec_broker \<Rightarrow> bool" where
  "idle sid sp \<longleftrightarrow> (\<forall>d i. subscriber sp d \<noteq> Some (i, sid))"

definition polite_frame :: "Frame \<Rightarrow> spec_broker \<Rightarrow> bool" where
  "polite_frame f sp \<longleftrightarrow>
     (command f = CmdSend \<longrightarrow> getHeader f HdrKeyDestination \<noteq> '''') \<and>
     (command f = CmdSubscribe \<longrightarrow>
        subscriber sp (getHeader f HdrKeyDestination) = None \<and>
        (\<forall>d s. subscriber sp d \<noteq> Some (getHeader f HdrKeyID, s))) \<and>
     (command f = CmdAck \<longrightarrow> count_list (getHeader f HdrKeyID) COLON \<ge> 2)"

fun polite :: "BrokerOpts \<Rightarrow> event \<Rightarrow> spec_broker \<Rightarrow> bool" where
  "polite opts (Incoming sid raw) sp \<longleftrightarrow>
     sid \<in> active sp \<and>
     (case NewFrameFromBytes raw of
        Ret f \<Rightarrow>
          if Validate ClientFrame f = Ret () then
            polite_frame f sp \<and> (spec_frame opts sid f sp = None \<longrightarrow> idle sid sp)
          else idle sid sp
      | _ \<Rightarrow> False)"
| "polite opts (Eof sid) sp \<longleftrightarrow> idle sid sp"
| "polite opts (Hangup sid) sp \<longleftrightarrow> idle sid sp"
| "polite opts _ sp \<longleftrightarrow> True"

section \<open>The relation\<close>

text \<open>The MESSAGE frames among what was sent to a session.\<close>

definition is_message :: "string \<Rightarrow> bool" where
  "is_message b \<longleftrightarrow> take 7 b = ''MESSAGE''"

definition messages_to :: "broker \<Rightarrow> string \<Rightarrow> string list" where
  "messages_to st s = filter is_message (sent_to st s)"

text \<open>The bytes of a delivery.\<close>

definition on_wire :: "env \<Rightarrow> delivery \<Rightarrow> string" where
  "on_wire env x =
     serialize (message_frame env (dl_uuid x) (getHeader (dl_frame x) HdrKeyDestination) (dl_subs x)
       (dl_ack x) (dl_tx x) (dl_frame x))"

definition in_service :: "BrokerOpts \<Rightarrow> string \<Rightarrow> Session \<Rightarrow> bool" where
  "in_service opts sid s \<longleftrightarrow>
     sessionID s = sid \<and> \<not> conn_closed (sess_conn s) \<and> loginFunc s = LoginFunc opts"

definition served :: "env \<Rightarrow> BrokerOpts \<Rightarrow> broker \<Rightarrow> spec_broker \<Rightarrow> bool" where
  "served env opts st sp \<longleftrightarrow>
     (\<forall>s. messages_to st s = map (on_wire env) (inbox sp s)) \<and>
     (\<forall>s \<in> active sp. s \<in> range (newUUID env) \<and> routine st s = Running \<and> in_service opts s (session_at st s)) \<and>
     (\<forall>d i s. subscriber sp d = Some (i, s) \<longrightarrow> s \<in> active sp) \<and>
     (\<forall>s. routine st s = NotStarted \<longrightarrow> inbox sp s = [])"

text \<open>The next acknowledgement number of a subscription is the number of messages it has been sent.\<close>

definition numbered :: "(string \<Rightarrow> 32 word) \<Rightarrow> registry \<Rightarrow> bool" where
  "numbered N = entries (\<lambda>d i info. nextAckNum info = N d)"

definition implements :: "env \<Rightarrow> BrokerOpts \<Rightarrow> broker \<Rightarrow> spec_broker \<Rightarrow> bool" where
  "implements env opts st sp \<longleftrightarrow>
     core_inv st \<and> tidy (reg st) \<and> subscriber_at (reg st) = subscriber sp \<and> numbered (sent_count sp) (reg st) \<and>
     txBuffer st = open_tx sp \<and> uuids st = minted sp \<and>
     (\<forall>tx q. open_tx sp tx = Some q \<longrightarrow> (\<forall>g \<in> set q. getHeader g HdrKeyDestination \<noteq> '''')) \<and>
     served env opts st sp"

lemma implements_start: "implements env opts (broker_start empty_registry) spec_start"
  using process_inv_start [of env]
  by (simp add: implements_def served_def broker_start_def spec_start_def tidy_empty numbered_def entries_empty
      process_inv_def
      messages_to_def sent_to_def NewSession_def new_conn_def)

section \<open>Steps that publish nothing\<close>

text \<open>
  From \<open>st\<close> to \<open>st'\<close> only heart-beats, what is written to connections other than MESSAGE
  frames, and jobs may have changed.
\<close>

definition unheard :: "broker \<Rightarrow> broker \<Rightarrow> bool" where
  "unheard st st' \<longleftrightarrow>
     reg st' = reg st \<and> txBuffer st' = txBuffer st \<and> routine st' = routine st \<and> uuids st' = uuids st \<and>
     (\<forall>s. messages_to st' s = messages_to st s \<and>
          (\<forall>opts. in_service opts s (session_at st s) \<longrightarrow> in_service opts s (session_at st' s)))"

lemma unheard_refl [simp]: "unheard st st"
  by (simp add: unheard_def)

lemma unheard_trans: "unheard st st' \<Longrightarrow> unheard st' st'' \<Longrightarrow> unheard st st''"
  by (simp add: unheard_def)

lemma implements_unheard: "implements env opts st sp \<Longrightarrow> unheard st st' \<Longrightarrow> implements env opts st' sp"
  by (auto simp: implements_def served_def unheard_def core_inv_def)

lemma unheard_session:
  assumes "\<And>s. sess_conn (g s) = sess_conn s" "\<And>s. sessionID (g s) = sessionID s"
    "\<And>s. loginFunc (g s) = loginFunc s"
  shows "unheard st (update_session sid g st)"
  using assms by (simp add: unheard_def update_session_def messages_to_def sent_to_def in_service_def)

lemma unheard_write: "\<not> is_message b \<Longrightarrow> unheard st (fst (write_session env sid b st))"
  by (auto simp: unheard_def messages_to_def write_session_sent)
    (auto simp: write_session_def retry_write_def update_session_def in_service_def split: option.splits)

lemma not_message:
  assumes "cmd = CmdConnected \<or> cmd = CmdReceipt \<or> cmd = CmdError"
  shows "\<not> is_message (serialize (NewFrame cmd h b))"
  using assms by (auto simp: is_message_def serialize_def NewFrame_def)

lemma unheard_send:
  "cmd = CmdConnected \<or> cmd = CmdReceipt \<or> cmd = CmdError \<Longrightarrow> unheard st (fst (send env sid cmd h b st))"
  by (cases rule: send_cases [of cmd h b env sid st]) (auto intro!: unheard_write not_message)

lemma unheard_and_then:
  "unheard st (fst r) \<Longrightarrow> (\<And>x s. unheard s (fst (k x s))) \<Longrightarrow> unheard st (fst (and_then r k))"
  by (rule and_then_fst) (auto intro: unheard_trans)

lemma unheard_regardless:
  "unheard st (fst r) \<Longrightarrow> (\<And>s. unheard s (fst (k s))) \<Longrightarrow> unheard st (fst (regardless r k))"
  by (rule regardless_fst) (auto intro: unheard_trans)

lemma unheard_schedule: "unheard st (fst (schedule_heartbeats env sid st))"
  by (simp add: schedule_heartbeats_def unheard_def Let_def update_session_def messages_to_def sent_to_def
      in_service_def split: prod.splits option.splits)

lemma unheard_negotiate: "unheard st (fst (negotiateHeartbeats env sid v st))"
proof -
  have "unheard st (update_session sid g (update_session sid h st))" and
    "unheard st (fst (schedule_heartbeats env sid (update_session sid g (update_session sid h st))))"
    if "\<And>s. sess_conn (g s) = sess_conn s" "\<And>s. sessionID (g s) = sessionID s"
      "\<And>s. loginFunc (g s) = loginFunc s" "\<And>s. sess_conn (h s) = sess_conn s"
      "\<And>s. sessionID (h s) = sessionID s" "\<And>s. loginFunc (h s) = loginFunc s" for g h
    using unheard_trans [OF unheard_session [of h] unheard_session [of g]] that unheard_schedule unheard_trans
    by blast+
  then show ?thesis by (simp add: negotiateHeartbeats_def Let_def split: outcome.splits prod.splits)
qed

lemma unheard_login: "unheard st (fst (connect_login env sid f st))"
  unfolding connect_login_def
  by (auto simp: sendError_def intro!: unheard_regardless unheard_send split: option.splits)

lemma unheard_heartbeats: "unheard st (fst (connect_heartbeats env sid f st))"
  using unheard_negotiate [of st env sid "getHeader f HdrKeyHeartBeat"]
  by (auto simp: connect_heartbeats_def Let_def split: prod.splits outcome.splits)

lemma unheard_connect: "unheard st (fst (handleConnect env sid f st))"
  unfolding handleConnect_def Let_def
  by (intro unheard_and_then unheard_login)
    (auto intro!: unheard_and_then unheard_send unheard_heartbeats)

section \<open>CONNECT\<close>

text \<open>
  What the specification needs of the other packages: besides \<open>env_ok\<close>, fresh UUIDs, a
  scheduler that accepts jobs, a version without escape sequences, and connections that take
  what is written to them while they are open.
\<close>

definition network_ok :: "env \<Rightarrow> bool" where
  "network_ok env \<longleftrightarrow>
     env_ok env \<and> inj (newUUID env) \<and> checkValidEscapes (releaseVersion env) \<and>
     (\<forall>n i tag. snd (sched_do env n i tag) = None) \<and>
     (\<forall>c b. \<not> conn_closed c \<longrightarrow> deliver env c b = None)"

lemma schedule_ok: "network_ok env \<Longrightarrow> snd (schedule_heartbeats env sid st) = Ret ()"
  by (auto simp: schedule_heartbeats_def network_ok_def Let_def split: prod.splits option.splits)
    (metis option.distinct(1) snd_conv)+

lemma negotiate_outcome:
  assumes "network_ok env"
  shows "if is_ret (parseHbVal v) then snd (negotiateHeartbeats env sid v st) = Ret ()
    else is_fail (snd (negotiateHeartbeats env sid v st))"
proof (cases "parseHbVal v")
  case (Ret x)
  with schedule_ok [OF assms] show ?thesis
    by (cases x) (simp add: negotiateHeartbeats_def Let_def)
qed (use broker_hb.negotiate_bad [of v] in simp_all)

lemma heartbeats_outcome:
  assumes "network_ok env"
  shows "if getHeader f HdrKeyHeartBeat = '''' \<or> is_ret (parseHbVal (getHeader f HdrKeyHeartBeat))
    then snd (connect_heartbeats env sid f st) = Ret () else is_fail (snd (connect_heartbeats env sid f st))"
  using negotiate_outcome [OF assms, of "getHeader f HdrKeyHeartBeat" sid st]
  by (auto simp: connect_heartbeats_def Let_def split: prod.splits outcome.splits if_splits)

lemma activeD:
  assumes "implements env opts st sp" and "sid \<in> active sp" and "network_ok env"
  shows "routine st sid = Running" "in_service opts sid (session_at st sid)" "checkValidEscapes sid"
  using assms env_ok_uuid by (auto simp: implements_def served_def network_ok_def)

lemma connect_outcome:
  assumes rel: "implements env opts st sp" and sid: "sid \<in> active sp" and net: "network_ok env"
  shows "if connect_ok opts f then snd (handleConnect env sid f st) = Ret ()
    else is_fail (snd (handleConnect env sid f st))"
proof -
  note serv = activeD [OF rel sid net]
  then have login: "loginFunc (session_at st sid) = LoginFunc opts" by (simp add: in_service_def)
  consider (refused) lf err where "loginFunc (session_at st sid) = Some lf"
      "lf (getHeader f HdrKeyLogin) (getHeader f HdrKeyPassCode) = Some err"
    | (version) "login_ok (session_at st sid) f" "\<not> accepts_12 f"
    | (fine) "login_ok (session_at st sid) f" "accepts_12 f"
  proof (cases "login_ok (session_at st sid) f")
    case False
    with refused show thesis by (auto simp: login_ok_def split: option.splits)
  qed (use version fine in blast)
  then show ?thesis
  proof cases
    case refused
    with login have "\<not> connect_ok opts f" by (auto simp: connect_ok_def dest: sym)
    with connect_refused [OF refused, of env] show ?thesis by simp
  next
    case version
    with connect_no_version [OF version] show ?thesis by (simp add: connect_ok_def)
  next
    case fine
    note hb = heartbeats_outcome [OF net, of f sid st]
    obtain st' r where r: "connect_heartbeats env sid f st = (st', r)" by fastforce
    show ?thesis
    proof (cases "r = Ret ()")
      case True
      have "in_service opts sid (session_at st' sid)"
        using unheard_heartbeats [of st env sid f] r serv(2) by (simp add: unheard_def)
      with serv(3) net fine r True hb login show ?thesis
        using connect_accepted [of st sid f env st']
        by (auto simp: in_service_def network_ok_def write_session_result connect_ok_def login_ok_def
            split: if_splits)
    next
      case False
      with hb r have "is_fail r" "\<not> connect_ok opts f" by (auto simp: connect_ok_def split: if_splits)
      with r fine show ?thesis
        by (auto simp: handleConnect_def connect_login_ok pick_version_eq accepts_12_def is_fail_iff)
    qed
  qed
qed

section \<open>Publishing\<close>

text \<open>A publish that is delivered, as the state it leaves.\<close>

lemma publish_effect:
  assumes core: "core_inv st" and env: "env_ok env" and f: "valid_headers (headers f)"
    and tx: "checkValidEscapes tx" and dest: "getHeader f HdrKeyDestination = dest" "dest \<noteq> ''''"
    and one: "subs_at (reg st) dest = [(i, info)]"
    and net: "deliver env (sess_conn (session_at st (sessionHandler info))) (message_bytes env st dest i info tx f) = None"
  shows "publish env f tx st =
    (let st' = fst (write_session env (sessionHandler info) (message_bytes env st dest i info tx f)
           (st\<lparr>uuids := Suc (uuids st)\<rparr>))
     in st'\<lparr>reg := mark_sent dest i (reg st')\<rparr>, Ret ())"
  using net
  unfolding publish_one [OF dest one broker_message_valid [OF core env one f tx dest(1)]]
  by (simp add: write_session_def retry_write_def Let_def)

lemma message_is_message: "is_message (serialize (message_frame env u dest i n tx f))"
  by (simp add: is_message_def serialize_def message_frame_def NewFrame_def)

lemma numbered_mark:
  assumes num: "numbered N r" and one: "subs_at r d = [(i, info)]"
  shows "numbered (N(d := N d + 1)) (mark_sent d i r)"
  unfolding numbered_def entries_def
proof (intro allI impI)
  fix d' m j info'
  assume m: "destToSubsMap (mark_sent d i r) d' = Some m" "(j, info') \<in> set m"
  show "nextAckNum info' = (N(d := N d + 1)) d'"
  proof (cases "d' = d")
    case True
    have "destToSubsMap r d = Some [(i, info)]" using one m True
      by (auto simp: subs_at_def mark_sent_def split: option.splits)
    moreover from this num have "nextAckNum info = N d" by (auto simp: numbered_def entries_def)
    ultimately show ?thesis using m True by (auto simp: mark_sent_def)
  next
    case False
    with m num show ?thesis by (auto simp: mark_sent_def numbered_def entries_def)
  qed
qed

lemma publish_sim:
  assumes rel: "implements env opts st sp" and net: "network_ok env"
    and f: "valid_headers (headers f)" "checkValidEscapes tx" and dest: "getHeader f HdrKeyDestination \<noteq> ''''"
  shows "snd (publish env f tx st) = Ret ()"
    and "implements env opts (fst (publish env f tx st)) (spec_publish tx f sp)"
proof -
  let ?d = "getHeader f HdrKeyDestination"
  have core: "core_inv st" and subs: "subscriber sp = subscriber_at (reg st)" and served: "served env opts st sp"
    using rel by (auto simp: implements_def)
  have "snd (publish env f tx st) = Ret () \<and> implements env opts (fst (publish env f tx st)) (spec_publish tx f sp)"
    using core
  proof (cases rule: subscriber_cases [of _ ?d])
    case 1
    with rel publish_nobody [OF dest 1] show ?thesis by (simp add: spec_publish_def subs subscriber_at_def)
  next
    case (2 i info)
    let ?s = "sessionHandler info"
    let ?b = "message_bytes env st ?d i info tx f"
    have sub: "subscriber sp ?d = Some (i, ?s)" using 2 by (simp add: subs subscriber_at_def)
    with served have "?s \<in> active sp" by (auto simp: served_def)
    from activeD(2) [OF rel this net]
    have ok: "deliver env (sess_conn (session_at st ?s)) ?b = None"
      using net by (simp add: in_service_def network_ok_def)
    define w where "w = fst (write_session env ?s ?b (st\<lparr>uuids := Suc (uuids st)\<rparr>))"
    define st' where "st' = w\<lparr>reg := mark_sent ?d i (reg w)\<rparr>"
    have eq: "publish env f tx st = (st', Ret ())"
      using publish_effect [OF core _ f refl dest 2(1) ok] net by (simp add: network_ok_def Let_def w_def st'_def)
    have w: "reg w = reg st" "txBuffer w = txBuffer st" "routine w = routine st" "uuids w = Suc (uuids st)"
      "\<And>x opts. in_service opts x (session_at w x) = in_service opts x (session_at st x)"
      by (auto simp: w_def write_session_def retry_write_def update_session_def in_service_def split: option.splits)
    have fields: "tidy (reg st') = tidy (reg st)" "subscriber_at (reg st') = subscriber_at (reg st)"
      "txBuffer st' = txBuffer st" "routine st' = routine st" "uuids st' = Suc (uuids st)"
      "\<And>x opts. in_service opts x (session_at st' x) = in_service opts x (session_at st x)"
      by (simp_all add: st'_def w tidy_mark subscriber_at_mark)
    have msg: "messages_to st' x = messages_to st x @ (if x = ?s then [?b] else [])" for x
    proof -
      have "sent_to (st\<lparr>uuids := Suc (uuids st)\<rparr>) x = sent_to st x" "sent_to st' x = sent_to w x"
        by (simp_all add: sent_to_def st'_def)
      with ok show ?thesis
        by (simp add: messages_to_def w_def write_session_sent message_bytes_def message_is_message)
    qed
    have num: "numbered (sent_count sp) (reg st)" and uuids: "minted sp = uuids st" using rel by (auto simp: implements_def)
    have n: "nextAckNum info = sent_count sp ?d"
      using num entries_subs_at [of _ "reg st" i info ?d] 2 by (simp add: numbered_def)
    have bytes: "?b = on_wire env \<lparr>dl_uuid = minted sp, dl_subs = i, dl_ack = sent_count sp ?d, dl_tx = tx, dl_frame = f\<rparr>"
      by (simp add: on_wire_def message_bytes_def n uuids)
    have "numbered ((sent_count sp)(?d := sent_count sp ?d + 1)) (reg st')"
      using numbered_mark [OF num 2(1)] by (simp add: st'_def w)
    moreover have "core_inv st'" using publish_core [OF core, of env f tx] eq by simp
    moreover have "served env opts st' (spec_publish tx f sp)"
      using served sub by (auto simp: served_def fields msg spec_publish_def bytes Let_def)
    ultimately show ?thesis using rel sub by (simp add: implements_def eq fields spec_publish_def Let_def)
  qed
  then show "snd (publish env f tx st) = Ret ()"
    "implements env opts (fst (publish env f tx st)) (spec_publish tx f sp)" by blast+
qed

lemma spec_publish_same [simp]:
  "subscriber (spec_publish tx f sp) = subscriber sp" "open_tx (spec_publish tx f sp) = open_tx sp"
  "active (spec_publish tx f sp) = active sp"
  by (simp_all add: spec_publish_def Let_def split: option.splits)

lemma commit_sim:
  assumes net: "network_ok env" and tx: "checkValidEscapes tx"
  shows "implements env opts st sp \<Longrightarrow>
    (\<And>g. g \<in> set q \<Longrightarrow> valid_headers (headers g) \<and> getHeader g HdrKeyDestination \<noteq> '''') \<Longrightarrow>
    snd (foreach_frame (\<lambda>g. publish env g tx) q st) = Ret () \<and>
    implements env opts (fst (foreach_frame (\<lambda>g. publish env g tx) q st)) (fold (spec_publish tx) q sp)"
proof (induction q arbitrary: st sp)
  case (Cons g q)
  have g: "valid_headers (headers g)" "getHeader g HdrKeyDestination \<noteq> ''''" using Cons.prems(2) by auto
  note p = publish_sim [OF Cons.prems(1) net g(1) tx g(2)]
  obtain st' where "publish env g tx st = (st', Ret ())" using p(1) by (cases "publish env g tx st") simp
  with p(2) Cons.IH [of st' "spec_publish tx g sp"] Cons.prems(2) show ?case by simp
qed simp

section \<open>One frame\<close>

text \<open>A step that changes the registry, or the transactions, and nothing else.\<close>

lemma implements_reg:
  assumes "implements env opts st sp" and "core_inv (st\<lparr>reg := r\<rparr>)" and "tidy r" and "numbered N r"
    and "\<And>d i s. subscriber_at r d = Some (i, s) \<Longrightarrow> s \<in> active sp"
  shows "implements env opts (st\<lparr>reg := r\<rparr>) (sp\<lparr>subscriber := subscriber_at r, sent_count := N\<rparr>)"
  using assms by (simp add: implements_def served_def messages_to_def sent_to_def)

lemma implements_tx:
  assumes "implements env opts st sp" and "core_inv (st\<lparr>txBuffer := b\<rparr>)"
    and "\<And>tx q g. b tx = Some q \<Longrightarrow> g \<in> set q \<Longrightarrow> getHeader g HdrKeyDestination \<noteq> ''''"
  shows "implements env opts (st\<lparr>txBuffer := b\<rparr>) (sp\<lparr>open_tx := b\<rparr>)"
  using assms by (simp add: implements_def served_def messages_to_def sent_to_def)

lemma on_reg_eq: "on_reg g st = (st\<lparr>reg := fst (g (reg st))\<rparr>, snd (g (reg st)))"
  by (simp add: on_reg_def split: prod.splits)

lemma on_tx_eq: "on_tx g st = (st\<lparr>txBuffer := fst (g (txBuffer st))\<rparr>, snd (g (txBuffer st)))"
  by (simp add: on_tx_def split: prod.splits)

text \<open>The outcome of a frame: what the specification says, or a refusal without effect.\<close>

definition frame_sim ::
  "env \<Rightarrow> BrokerOpts \<Rightarrow> broker \<times> unit result \<Rightarrow> spec_broker option \<Rightarrow> spec_broker \<Rightarrow> bool" where
  "frame_sim env opts r out sp \<longleftrightarrow>
     (case out of
        Some sp' \<Rightarrow> snd r = Ret () \<and> implements env opts (fst r) sp'
      | None \<Rightarrow> is_fail (snd r) \<and> implements env opts (fst r) sp)"

lemma connect_sim:
  assumes "implements env opts st sp" and "sid \<in> active sp" and "network_ok env"
  shows "frame_sim env opts (handleConnect env sid f st) (if connect_ok opts f then Some sp else None) sp"
  using connect_outcome [OF assms, of f] implements_unheard [OF assms(1) unheard_connect]
  by (simp add: frame_sim_def)

lemma subscribe_sim:
  assumes rel: "implements env opts st sp" and sid: "sid \<in> active sp" and i: "checkValidEscapes i"
    and free: "subscriber sp d = None" "\<And>d s. subscriber sp d \<noteq> Some (i, s)"
    and mode: "auto_mode d i \<lparr>sessionHandler = sid, ackMode = m, nextAckNum = 0, pendingAckBitmap = {}\<rparr>"
  shows "frame_sim env opts (on_reg (addSubscription d i m sid) st)
    (if i = '''' \<or> d = '''' then None
     else Some (sp\<lparr>subscriber := (subscriber sp)(d \<mapsto> (i, sid)), sent_count := (sent_count sp)(d := 0)\<rparr>)) sp"
proof (cases "i = '''' \<or> d = ''''")
  case True
  with rel addSubscription_fail [of i d m sid "reg st"] show ?thesis by (auto simp: frame_sim_def on_reg_eq)
next
  case False
  have inv: "reg_inv (reg st)" "entries good_entry (reg st)" "tidy (reg st)" "core_inv st"
    and subs: "subscriber_at (reg st) = subscriber sp"
    using rel by (auto simp: implements_def core_inv_def)
  from False have ok: "i \<noteq> ''''" "d \<noteq> ''''" by auto
  note add = tidy_add [OF inv(1,3) ok free [folded subs], of m sid]
  have "core_inv (st\<lparr>reg := fst (addSubscription d i m sid (reg st))\<rparr>)"
    using on_reg_core [OF inv(4), of "addSubscription d i m sid"] inv mode i
    by (simp add: on_reg_eq reg_inv_add entries_add good_entry_def)
  moreover have "numbered ((sent_count sp)(d := 0)) (fst (addSubscription d i m sid (reg st)))"
  proof -
    have "destToSubsMap (reg st) d = None"
    proof -
      have "subscriber_at (reg st) d = None" using free(1) subs by simp
      then show ?thesis using reg_inv_single [OF inv(1), of d]
        by (cases "destToSubsMap (reg st) d") (auto simp: subscriber_at_def subs_at_def)
    qed
    then have "numbered ((sent_count sp)(d := 0)) (reg st)"
      using rel by (auto simp: implements_def numbered_def entries_def)
    then show ?thesis unfolding numbered_def by (rule entries_add) simp
  qed
  moreover have "s \<in> active sp" if "subscriber_at (fst (addSubscription d i m sid (reg st))) d' = Some (j, s)" for d' j s
    using that rel sid by (auto simp: add(1) subs implements_def served_def split: if_splits)
  ultimately have "implements env opts (st\<lparr>reg := fst (addSubscription d i m sid (reg st))\<rparr>)
      (sp\<lparr>subscriber := subscriber_at (fst (addSubscription d i m sid (reg st))), sent_count := (sent_count sp)(d := 0)\<rparr>)"
    by (intro implements_reg [OF rel _ add(2)])
  with False addSubscription_ok(1) [OF ok inv(1)] add(1) subs show ?thesis
    by (simp add: frame_sim_def on_reg_eq)
qed

lemma unsubscribe_sim:
  assumes rel: "implements env opts st sp"
  shows "frame_sim env opts (on_reg (removeSubscription i) st)
    (if \<exists>d s. subscriber sp d = Some (i, s)
     then Some (sp\<lparr>subscriber := drop_subs (\<lambda>j s. j = i) (subscriber sp)\<rparr>) else None) sp"
proof -
  have inv: "reg_inv (reg st)" "entries good_entry (reg st)" "tidy (reg st)" "core_inv st"
    and subs: "subscriber_at (reg st) = subscriber sp"
    using rel by (auto simp: implements_def core_inv_def)
  show ?thesis
  proof (cases "\<exists>d s. subscriber sp d = Some (i, s)")
    case True
    then obtain d s where "subscriber_at (reg st) d = Some (i, s)" using subs by auto
    note rem = tidy_remove [OF inv(1,3) this]
    have "core_inv (st\<lparr>reg := fst (removeSubscription i (reg st))\<rparr>)"
      using on_reg_core [OF inv(4), of "removeSubscription i"] inv
      by (simp add: on_reg_eq reg_inv_remove entries_remove)
    then have "implements env opts (st\<lparr>reg := fst (removeSubscription i (reg st))\<rparr>)
        (sp\<lparr>subscriber := subscriber_at (fst (removeSubscription i (reg st))), sent_count := sent_count sp\<rparr>)"
      by (rule implements_reg [OF rel _ rem(3)])
        (use rel in \<open>auto simp: rem(2) subs implements_def served_def numbered_def entries_remove\<close>)
    with True rem(1,2) subs show ?thesis by (simp add: frame_sim_def on_reg_eq)
  next
    case False
    with tidy_remove_unknown [OF inv(3), of i] subs rel show ?thesis
      by (simp add: frame_sim_def on_reg_eq)
  qed
qed

lemma ack_sim:
  assumes rel: "implements env opts st sp" and colons: "count_list (getHeader f HdrKeyID) COLON \<ge> 2"
  shows "frame_sim env opts (on_reg (processAck m (getHeader f HdrKeyID)) st) (if ack_ok f sp then Some sp else None) sp"
proof -
  let ?v = "getHeader f HdrKeyID"
  have inv: "reg_inv (reg st)" "entries auto_mode (reg st)" and subs: "subscriber_at (reg st) = subscriber sp"
    using rel good_entries_auto by (auto simp: implements_def core_inv_def)
  have "\<not> is_panic (scanAckNum ?v)" using colons by (simp add: scanAckNum_panic_iff)
  then have "if ack_ok f sp then snd (processAck m ?v (reg st)) = Ret () else is_fail (snd (processAck m ?v (reg st)))"
  proof (cases "scanAckNum ?v")
    case (Ret x)
    obtain d i n where x: "x = (d, i, n)" by (cases x)
    show ?thesis
    proof (cases "destToSubsMap (reg st) d")
      case None
      with Ret x subs show ?thesis by (simp add: processAck_def ack_ok_def subscriber_at_def subs_at_def flip: subs)
    next
      case (Some subs')
      then obtain j info where one: "subs' = [(j, info)]" using reg_inv_single [OF inv(1)] by blast
      with Some inv(2) have "ack_update m info n = Ret info"
        by (intro ack_update_auto [of d j]) (simp add: entries_def)
      with Ret x Some one show ?thesis
        by (simp add: processAck_def ack_ok_def subscriber_at_def subs_at_def flip: subs)
    qed
  qed (auto simp: processAck_def ack_ok_def scanAckNum_def Let_def split: if_splits sum.splits)
  with processAck_auto [OF inv(2), of m ?v] rel show ?thesis by (simp add: frame_sim_def on_reg_eq)
qed

text \<open>A session without subscriptions goes.\<close>

lemma implements_leave:
  assumes rel: "implements env opts st sp" and idle: "idle sid sp"
    and same: "reg st' = reg st" "txBuffer st' = txBuffer st" "uuids st' = uuids st" "sent_to st' = sent_to st"
      "\<And>s. s \<noteq> sid \<Longrightarrow> routine st' s = routine st s \<and> session_at st' s = session_at st s"
      "routine st sid = NotStarted \<or> routine st' sid \<noteq> NotStarted"
  shows "implements env opts st' (sp\<lparr>active := active sp - {sid}\<rparr>)"
proof -
  have "core_inv st' = core_inv st" using same by (simp add: core_inv_def)
  moreover have "routine st s = NotStarted" if "routine st' s = NotStarted" for s
    using that same(5) [of s] same(6) by (cases "s = sid") auto
  moreover have "messages_to st' = messages_to st" using same(4) by (simp add: messages_to_def fun_eq_iff)
  ultimately show ?thesis using rel idle same(1-3,5)
    by (auto simp: implements_def served_def idle_def)
qed

lemma implements_close:
  "implements env opts st sp \<Longrightarrow> idle sid sp \<Longrightarrow> implements env opts (close_conn sid st) (sp\<lparr>active := active sp - {sid}\<rparr>)"
  by (erule implements_leave) (auto simp: close_conn_def update_session_def sent_to_def fun_eq_iff)

lemma disconnect_sim:
  assumes rel: "implements env opts st sp" and sid: "sid \<in> active sp" and net: "network_ok env"
    and f: "command f = CmdDisconnect"
  shows "frame_sim env opts (stateMachine env sid f st)
    (Some (sp\<lparr>subscriber := drop_subs (\<lambda>j s. s = sid) (subscriber sp), active := active sp - {sid}\<rparr>)) sp"
proof -
  have inv: "reg_inv (reg st)" "tidy (reg st)" "entries good_entry (reg st)" "core_inv st"
    and subs: "subscriber_at (reg st) = subscriber sp"
    using rel by (auto simp: implements_def core_inv_def)
  note clean = tidy_cleanup [OF inv(1,2), of "range_order env (uuids st)" sid]
  let ?r = "fst (cleanupSubscriptions (range_order env (uuids st)) sid (reg st))"
  let ?sp = "sp\<lparr>subscriber := drop_subs (\<lambda>j s. s = sid) (subscriber sp)\<rparr>"
  have "core_inv (st\<lparr>reg := ?r\<rparr>)"
    using on_reg_core [OF inv(4), of "cleanupSubscriptions (range_order env (uuids st)) sid"] inv
    by (simp add: on_reg_eq reg_inv_cleanup entries_cleanup)
  then have "implements env opts (st\<lparr>reg := ?r\<rparr>) (sp\<lparr>subscriber := subscriber_at ?r, sent_count := sent_count sp\<rparr>)"
    by (rule implements_reg [OF rel _ clean(3)])
      (use rel in \<open>auto simp: clean(2) subs implements_def served_def numbered_def entries_cleanup\<close>)
  then have r: "implements env opts (st\<lparr>reg := ?r\<rparr>) ?sp" by (simp add: clean(2) subs)
  let ?send = "send env sid CmdReceipt [(HdrKeyReceiptID, getHeader f HdrKeyReceipt)] None (st\<lparr>reg := ?r\<rparr>)"
  have "implements env opts (fst ?send) ?sp" by (rule implements_unheard [OF r unheard_send]) simp
  then have "implements env opts (close_conn sid (fst ?send)) (?sp\<lparr>active := active ?sp - {sid}\<rparr>)"
    by (rule implements_close) (simp add: idle_def)
  moreover have "stateMachine env sid f st = (close_conn sid (fst ?send), Ret ())"
  proof -
    have "sessionID (session_at st sid) = sid" using activeD(2) [OF rel sid net] by (simp add: in_service_def)
    moreover have "snd ?send = Ret () \<or> (\<exists>e. snd ?send = Fail e)" by (rule send_result)
    ultimately show ?thesis using f clean(1)
      by (auto simp: stateMachine_disconnect on_reg_eq regardless_eq)
  qed
  ultimately show ?thesis by (simp add: frame_sim_def)
qed

text \<open>The operations on transactions; \<open>d\<close> is what the specification does with the buffer.\<close>

lemma tx_sim:
  assumes rel: "implements env opts st sp"
    and good: "\<And>i m. x = TxAdd i m \<Longrightarrow> good_frame m \<and> getHeader m HdrKeyDestination \<noteq> ''''"
  shows "frame_sim env opts (on_tx (tx_step x) st)
    (if snd (tx_step x (open_tx sp)) = Ret () then Some (sp\<lparr>open_tx := fst (tx_step x (open_tx sp))\<rparr>) else None) sp"
proof -
  have tx: "txBuffer st = open_tx sp" and core: "core_inv st"
    and dests: "\<And>i q g. open_tx sp i = Some q \<Longrightarrow> g \<in> set q \<Longrightarrow> getHeader g HdrKeyDestination \<noteq> ''''"
    using rel by (auto simp: implements_def)
  let ?b = "fst (tx_step x (open_tx sp))"
  have "core_inv (st\<lparr>txBuffer := ?b\<rparr>)"
    using on_tx_core [OF core, of x] good tx by (auto simp: on_tx_eq)
  moreover have "getHeader g HdrKeyDestination \<noteq> ''''" if "?b i = Some q" "g \<in> set q" for i q g
    using that dests good
    by (cases x) (auto simp: startTx_def bufferTxMessage_def dropTx_def split: if_splits option.splits)
  ultimately have "implements env opts (st\<lparr>txBuffer := ?b\<rparr>) (sp\<lparr>open_tx := ?b\<rparr>)"
    by (rule implements_tx [OF rel])
  moreover have "snd (tx_step x (open_tx sp)) \<noteq> Ret () \<Longrightarrow> ?b = open_tx sp \<and> is_fail (snd (tx_step x (open_tx sp)))"
    by (cases x) (auto simp: startTx_def bufferTxMessage_def dropTx_def split: if_splits option.splits)
  ultimately show ?thesis using rel tx
    by (cases "snd (tx_step x (open_tx sp)) = Ret ()") (auto simp: frame_sim_def on_tx_eq)
qed

lemma send_sim:
  assumes rel: "implements env opts st sp" and net: "network_ok env" and f: "good_frame f"
    and dest: "getHeader f HdrKeyDestination \<noteq> ''''"
  shows "frame_sim env opts (stateMachine env sid f st) (spec_frame opts sid f sp) sp"
proof (cases "getHeader f HdrKeyTransaction = ''''")
  case True
  from f have "valid_headers (headers f)" by (auto simp: good_frame_def dest: Validate_valid_headers)
  from publish_sim [OF rel net this _ dest, of "''''"] True f show ?thesis
    by (simp add: frame_sim_def good_frame_def spec_frame_def stateMachine_send)
next
  case False
  let ?x = "TxAdd (getHeader f HdrKeyTransaction) f"
  have "stateMachine env sid f st = on_tx (tx_step ?x) st"
    using False f by (simp add: stateMachine_send good_frame_def del: tx_step.simps)
  moreover have "spec_frame opts sid f sp =
      (if snd (tx_step ?x (open_tx sp)) = Ret () then Some (sp\<lparr>open_tx := fst (tx_step ?x (open_tx sp))\<rparr>) else None)"
    using False f by (simp add: spec_frame_def good_frame_def bufferTxMessage_def Let_def split: option.splits)
  ultimately show ?thesis using tx_sim [OF rel, of ?x] f dest by simp
qed

lemma transaction_sim:
  assumes rel: "implements env opts st sp" and net: "network_ok env" and f: "Validate ClientFrame f = Ret ()"
    and cmd: "command f = CmdBegin \<or> command f = CmdCommit \<or> command f = CmdAbort"
  shows "frame_sim env opts (stateMachine env sid f st) (spec_frame opts sid f sp) sp"
proof -
  let ?tx = "getHeader f HdrKeyTransaction"
  have core: "core_inv st" and tx: "txBuffer st = open_tx sp"
    and dests: "\<And>i q g. open_tx sp i = Some q \<Longrightarrow> g \<in> set q \<Longrightarrow> getHeader g HdrKeyDestination \<noteq> ''''"
    using rel by (auto simp: implements_def)
  then have no_empty: "open_tx sp '''' = None" by (simp add: core_inv_def tx_inv_def)
  from cmd show ?thesis
  proof (elim disjE)
    assume c: "command f = CmdBegin"
    then have "spec_frame opts sid f sp = (if snd (tx_step (TxBegin ?tx) (open_tx sp)) = Ret ()
        then Some (sp\<lparr>open_tx := fst (tx_step (TxBegin ?tx) (open_tx sp))\<rparr>) else None)"
      by (simp add: spec_frame_def startTx_def)
    with c tx_sim [OF rel, of "TxBegin ?tx"] show ?thesis by (simp add: stateMachine_tx del: tx_step.simps)
  next
    assume c: "command f = CmdAbort"
    then have "spec_frame opts sid f sp = (if snd (tx_step (TxDrop ?tx) (open_tx sp)) = Ret ()
        then Some (sp\<lparr>open_tx := fst (tx_step (TxDrop ?tx) (open_tx sp))\<rparr>) else None)"
      using no_empty by (auto simp: spec_frame_def dropTx_def)
    with c tx_sim [OF rel, of "TxDrop ?tx"] show ?thesis by (simp add: stateMachine_tx del: tx_step.simps)
  next
    assume c: "command f = CmdCommit"
    show ?thesis
    proof (cases "open_tx sp ?tx")
      case None
      with c rel tx show ?thesis by (simp add: frame_sim_def spec_frame_def stateMachine_tx foreachTx_def)
    next
      case (Some q)
      then have "?tx \<noteq> ''''" using no_empty by auto
      have "valid_headers (headers g) \<and> getHeader g HdrKeyDestination \<noteq> ''''" if "g \<in> set q" for g
      proof -
        have "list_all good_frame q" using core Some tx by (simp add: core_inv_def tx_frames_def)
        with that have "Validate ClientFrame g = Ret ()" by (simp add: list_all_iff good_frame_def)
        with Validate_valid_headers dests [OF Some that] show ?thesis by blast
      qed
      from commit_sim [OF net validated_getHeader [OF f] rel this]
      show ?thesis using c Some \<open>?tx \<noteq> ''''\<close> tx
        by (simp add: frame_sim_def spec_frame_def stateMachine_tx foreachTx_def)
    qed
  qed
qed

text \<open>Every valid frame of a polite client.\<close>

lemma valid_frame_sim:
  assumes rel: "implements env opts st sp" and sid: "sid \<in> active sp" and net: "network_ok env"
    and f: "Validate ClientFrame f = Ret ()" and polite: "polite_frame f sp"
  shows "frame_sim env opts (stateMachine env sid f st) (spec_frame opts sid f sp) sp"
  using f
proof (cases rule: client_command_cases)
  case connect
  with connect_sim [OF rel sid net, of f] show ?thesis by (auto simp: spec_frame_def stateMachine_connect)
next
  case send
  with f polite have "good_frame f" "getHeader f HdrKeyDestination \<noteq> ''''"
    by (auto simp: good_frame_def polite_frame_def)
  with send_sim [OF rel net] show ?thesis by blast
next
  case subscribe
  let ?d = "getHeader f HdrKeyDestination" and ?i = "getHeader f HdrKeyID"
  have free: "subscriber sp ?d = None" "\<And>d s. subscriber sp d \<noteq> Some (?i, s)"
    using polite subscribe by (auto simp: polite_frame_def)
  from subscribe subscribe_sim [OF rel sid validated_getHeader [OF f] free] show ?thesis
    by (simp add: spec_frame_def stateMachine_subscribe auto_mode_def Let_def)
next
  case unsubscribe
  with unsubscribe_sim [OF rel] show ?thesis by (simp add: spec_frame_def stateMachine_unsubscribe Let_def)
next
  case ack
  with ack_sim [OF rel] polite show ?thesis by (simp add: spec_frame_def stateMachine_ack polite_frame_def)
next
  case nack
  with rel show ?thesis by (simp add: frame_sim_def spec_frame_def stateMachine_nack)
next
  case disconnect
  with disconnect_sim [OF rel sid net disconnect] show ?thesis by (simp add: spec_frame_def)
qed (use transaction_sim [OF rel net f] in blast)+

section \<open>One event\<close>

lemma ended_sim:
  assumes "implements env opts st sp" and "idle sid sp"
  shows "implements env opts (fst (cleanup sid (set_routine sid Ended st))) (sp\<lparr>active := active sp - {sid}\<rparr>)"
  using assms
  by (rule implements_leave)
    (auto simp: cleanup_def Let_def set_routine_def close_conn_def update_session_def sent_to_def fun_eq_iff
      split: option.splits)

lemma invalid_frame:
  assumes "NewFrameFromBytes raw = Ret f" and "Validate ClientFrame f = Fail e"
  shows "unheard st (fst (handle_raw env sid raw st)) \<and> snd (handle_raw env sid raw st) = Fail e"
proof -
  let ?r = "sendError env sid e (''Frame validation error:'' @ Frame_String f) st"
  have "snd ?r = Ret () \<or> (\<exists>e. snd ?r = Fail e)" "unheard st (fst ?r)"
    unfolding sendError_def by (rule send_result, rule unheard_send) simp
  with assms show ?thesis by (auto simp: handle_raw_def regardless_eq)
qed

text \<open>The frame of a polite client, from its bytes.\<close>

lemma raw_sim:
  assumes rel: "implements env opts st sp" and net: "network_ok env" and polite: "polite opts (Incoming sid raw) sp"
  obtains (fine) sp' where "spec_event env opts (Incoming sid raw) sp = sp'"
      "snd (handle_raw env sid raw st) = Ret ()" "implements env opts (fst (handle_raw env sid raw st)) sp'"
  | (refused) e where "spec_event env opts (Incoming sid raw) sp = sp\<lparr>active := active sp - {sid}\<rparr>" "idle sid sp"
      "snd (handle_raw env sid raw st) = Fail e" "implements env opts (fst (handle_raw env sid raw st)) sp"
proof -
  from polite obtain f where raw: "NewFrameFromBytes raw = Ret f" and sid: "sid \<in> active sp"
    by (auto split: outcome.splits)
  show thesis
  proof (cases "Validate ClientFrame f = Ret ()")
    case True
    with polite raw have ok: "polite_frame f sp" "spec_frame opts sid f sp = None \<Longrightarrow> idle sid sp" by auto
    have eq: "handle_raw env sid raw st = stateMachine env sid f st" using raw True by (simp add: handle_raw_def)
    from valid_frame_sim [OF rel sid net True ok(1)] raw True ok(2) fine refused show thesis
      by (cases "spec_frame opts sid f sp") (auto simp: frame_sim_def eq is_fail_iff)
  next
    case False
    then obtain e where e: "Validate ClientFrame f = Fail e"
      using Validate_not_panic [of ClientFrame f] Validate_result [of ClientFrame f]
      by (cases "Validate ClientFrame f") auto
    from invalid_frame [OF raw e, of st env sid] implements_unheard [OF rel] polite raw e refused show thesis by auto
  qed
qed

lemma accept_sim:
  assumes rel: "implements env opts st sp" and threads: "threads_inv env st" and net: "network_ok env"
  shows "implements env opts (accept env opts st) (spec_event env opts Accept sp)"
proof -
  let ?sid = "newUUID env (uuids st)"
  have uuids: "minted sp = uuids st" using rel by (simp add: implements_def)
  have "?sid \<notin> newUUID env ` {..< uuids st}" using net by (auto simp: network_ok_def dest: injD)
  with threads have new: "routine st ?sid = NotStarted" by (auto simp: threads_inv_def)
  then have none: "inbox sp ?sid = []" using rel by (simp add: implements_def served_def)
  have "messages_to (accept env opts st) s = (if s = ?sid then [] else messages_to st s)" for s
    by (simp add: messages_to_def sent_to_def accept_def Let_def NewSession_def new_conn_def)
  moreover have "in_service opts s (session_at (accept env opts st) s) = (s = ?sid \<or> in_service opts s (session_at st s))" for s
    by (auto simp: in_service_def accept_def Let_def NewSession_def new_conn_def)
  moreover have "routine (accept env opts st) = (routine st)(?sid := Running)"
    "reg (accept env opts st) = reg st" "txBuffer (accept env opts st) = txBuffer st"
    "uuids (accept env opts st) = Suc (uuids st)"
    by (simp_all add: accept_def Let_def)
  ultimately show ?thesis using rel uuids none
    by (auto simp: implements_def served_def core_inv_def)
qed

definition broker_rel :: "env \<Rightarrow> BrokerOpts \<Rightarrow> broker \<Rightarrow> spec_broker \<Rightarrow> bool" where
  "broker_rel env opts st sp \<longleftrightarrow> network_ok env \<and> threads_inv env st \<and> implements env opts st sp"

lemma event_sim:
  assumes rel: "broker_rel env opts st sp" and polite: "polite opts x sp"
  shows "implements env opts (fst (broker_step env opts x st)) (spec_event env opts x sp) \<and>
    snd (broker_step env opts x st) = Ret ()"
proof -
  have impl: "implements env opts st sp" and threads: "threads_inv env st" and net: "network_ok env"
    using rel by (auto simp: broker_rel_def)
  show ?thesis
  proof (cases x)
    case Accept
    with accept_sim [OF impl threads net] show ?thesis by simp
  next
    case (Incoming sid raw)
    then have "sid \<in> active sp" using polite by simp
    with impl net have run: "routine st sid = Running" by (blast dest: activeD(1))
    obtain st' r where r: "handle_raw env sid raw st = (st', r)" by fastforce
    then have same: "same_threads st st'" using handle_raw_threads [of st env sid raw] by simp
    with run have run': "routine st' sid = Running" by (simp add: same_threads_def)
    note ended = cleanup_ended(2) [OF threads_inv_same [OF threads same] run']
    from impl net polite [unfolded Incoming] show ?thesis
    proof (cases rule: raw_sim)
      case (fine sp')
      with r Incoming run show ?thesis by simp
    next
      case (refused e)
      with r Incoming run ended ended_sim [of env opts st' sp sid] show ?thesis by simp
    qed
  next
    case (Eof sid)
    show ?thesis
    proof (cases "routine st sid = Running")
      case True
      with Eof polite ended_sim [OF impl] cleanup_ended(2) [OF threads True] show ?thesis by simp
    next
      case False
      with impl net have "sid \<notin> active sp" by (blast dest: activeD(1))
      with Eof False impl show ?thesis by simp
    qed
  next
    case (Hangup sid)
    with polite implements_close [OF impl] show ?thesis by simp
  next
    case (Tick j)
    have "unheard st (fst (regardless (sendRaw env s [LF] st) (\<lambda>st. (st, Ret ()))))" for s
      unfolding sendRaw_def by (rule unheard_regardless [OF unheard_write]) (simp_all add: is_message_def)
    moreover have "snd (regardless (sendRaw env s [LF] st) (\<lambda>st. (st, Ret ()))) = Ret ()" for s
      by (auto simp: sendRaw_def regardless_eq write_session_result split: option.splits)
    ultimately show ?thesis using Tick implements_unheard [OF impl] by (simp split: option.splits)
  qed
qed

interpretation broker_sim: simulation "broker_step env opts" "spec_event env opts" "broker_rel env opts" "polite opts"
  for env opts
proof
  fix st sp x
  assume "broker_rel env opts st sp" "polite opts x sp"
  with event_sim [OF this] broker_step_threads [of env st opts x]
  show "broker_rel env opts (fst (broker_step env opts x st)) (spec_event env opts x sp)"
    "\<not> is_panic (snd (broker_step env opts x st))"
    by (auto simp: broker_rel_def network_ok_def)
qed

section \<open>Properties\<close>

text \<open>
  C2. The broker is a publish-subscribe broker for polite clients. Whatever connections are
  accepted, whatever frames they send and however they interleave, as long as the clients are
  polite and open connections take what is written to them: no event panics, the registry
  and the transactions are those of the specification, every session that the specification
  serves is running, and every session has been sent exactly the MESSAGE frames of the
  specification, in its order, byte for byte: with the next unused UUID and the number of
  messages that the subscription had been sent before.
\<close>

theorem broker_refines:
  assumes net: "network_ok env" and polite: "allowed_run (polite opts) (spec_event env opts) events spec_start"
    and st: "st = run_ops (broker_step env opts) events (broker_start empty_registry)"
    and sp: "sp = fold (spec_event env opts) events spec_start"
  shows "subscriber_at (reg st) = subscriber sp \<and> txBuffer st = open_tx sp \<and>
    (\<forall>s. messages_to st s = map (on_wire env) (inbox sp s)) \<and>
    (\<forall>s \<in> active sp. routine st s = Running) \<and>
    (\<forall>xs x ys. events = xs @ x # ys \<longrightarrow>
       \<not> is_panic (snd (broker_step env opts x (run_ops (broker_step env opts) xs (broker_start empty_registry)))))"
proof -
  have start: "broker_rel env opts (broker_start empty_registry) spec_start"
    using net implements_start process_inv_start [of env] by (simp add: broker_rel_def process_inv_def)
  have "broker_rel env opts st sp" unfolding st sp by (rule broker_sim.run_sim [OF start polite])
  moreover have "\<not> is_panic (snd (broker_step env opts x (run_ops (broker_step env opts) xs (broker_start empty_registry))))"
    if "events = xs @ x # ys" for xs x ys
    by (rule broker_sim.run_safe [OF start]) (use polite that in blast)
  ultimately show ?thesis by (auto simp: broker_rel_def implements_def served_def)
qed

text \<open>Session \<open>u\<close> subscribes, session \<open>uu\<close> sends, in a transaction that it commits, and leaves.\<close>

definition begin_frame :: Frame where
  "begin_frame = NewFrame CmdBegin [(HdrKeyTransaction, ''t'')] None"

definition tx_send_frame :: Frame where
  "tx_send_frame = NewFrame CmdSend [(HdrKeyDestination, ''/q''), (HdrKeyTransaction, ''t'')] (Some ''hi'')"

definition polite_events :: "event list" where
  "polite_events =
     [Accept, Accept, Incoming ''u'' (serialize subscribe_frame), Incoming ''uu'' (serialize begin_frame),
      Incoming ''uu'' (serialize tx_send_frame), Incoming ''uu'' (serialize commit_frame), Eof ''uu'']"

lemma polite_frames:
  "NewFrameFromBytes (serialize subscribe_frame) = Ret subscribe_frame" "Validate ClientFrame subscribe_frame = Ret ()"
  "NewFrameFromBytes (serialize begin_frame) = Ret begin_frame" "Validate ClientFrame begin_frame = Ret ()"
  "NewFrameFromBytes (serialize tx_send_frame) = Ret tx_send_frame" "Validate ClientFrame tx_send_frame = Ret ()"
  "NewFrameFromBytes (serialize commit_frame) = Ret commit_frame" "Validate ClientFrame commit_frame = Ret ()"
  "command subscribe_frame = CmdSubscribe" "command begin_frame = CmdBegin" "command tx_send_frame = CmdSend"
  "command commit_frame = CmdCommit"
  "getHeader subscribe_frame HdrKeyID = ''s2''" "getHeader subscribe_frame HdrKeyDestination = ''/q''"
  "getHeader begin_frame HdrKeyTransaction = ''t''" "getHeader commit_frame HdrKeyTransaction = ''t''"
  "getHeader tx_send_frame HdrKeyTransaction = ''t''" "getHeader tx_send_frame HdrKeyDestination = ''/q''"
  by code_simp+

lemma demo_network: "network_ok demo_env"
  using demo_env_ok demo_env_uuids
  by (simp add: network_ok_def) (simp add: demo_env_def checkValidEscapes_plain)

theorem broker_refines_witness:
  "messages_to (run_ops (broker_step demo_env demo_opts) polite_events (broker_start empty_registry)) ''u'' =
     [serialize (message_frame demo_env 2 ''/q'' ''s2'' 0 ''t'' tx_send_frame)]"
proof -
  have uuid: "newUUID demo_env 0 = ''u''" "newUUID demo_env (Suc 0) = ''uu''" by (simp_all add: demo_env_def)
  note eval = polite_events_def polite_frames uuid spec_frame_def spec_start_def spec_publish_def
    polite_frame_def idle_def Let_def
  have polite: "allowed_run (polite demo_opts) (spec_event demo_env demo_opts) polite_events spec_start"
    by (simp add: eval)
  have "map (on_wire demo_env) (inbox (fold (spec_event demo_env demo_opts) polite_events spec_start) ''u'') =
      [serialize (message_frame demo_env 2 ''/q'' ''s2'' 0 ''t'' tx_send_frame)]"
    by (simp add: eval on_wire_def numeral_2_eq_2)
  with broker_refines [OF demo_network polite refl refl] show ?thesis by simp
qed

end
