(* ===== verification/Spec2Isabelle.thy ===== *)
theory Spec2Isabelle
  imports End_To_End Stomper_Behaviour Servers Broker_Refinement
begin

text \<open>
  A verification development for \<^verbatim>\<open>go-proto-stomp\<close>, a STOMP 1.2 broker and client in Go
  (package \<^verbatim>\<open>pkg/stomp\<close>), with its two commands: the broker \<^verbatim>\<open>stompd\<close> and the interactive client
  \<^verbatim>\<open>stomper\<close> (\<^verbatim>\<open>cmd\<close>).

  The program. A client connects over TCP or a websocket and exchanges STOMP frames with the
  broker. Bytes are cut into frames by a \<open>bufio.Scanner\<close> with a split function of the
  repository, parsed, validated against a table, and handled by a state machine on either
  side. The broker keeps three package-level maps for subscriptions and one for transactions,
  which all its sessions share; a SEND is published to the subscribers of its destination, or
  buffered in a transaction until COMMIT. Both sides negotiate heart-beats when they
  connect.

  The theories, in the order of the code's layers.
  \<^item> \<open>Go_Prelude\<close>: the outcome of a Go call (\<open>Ret\<close> a value, \<open>Fail\<close> a returned error, \<open>Panic\<close> a
    run-time panic, \<open>Block\<close> a call that never returns), sequencing, Go maps as association
    lists, and the generic interfaces \<open>codec\<close> (a decoder that undoes an encoder), \<open>machine\<close>
    (steps that keep an invariant) and \<open>simulation\<close> (steps that follow a specification).
  \<^item> \<open>Go_Strings\<close>: what the code uses of \<open>strings\<close>, \<open>bytes\<close>, \<open>strconv\<close> and \<open>sort\<close>, on strings as
    lists of bytes; 64-bit integers are integers with their bounds and wrap-around
    (\<open>int64\<close>, \<open>wrap64\<close>), the 32-bit acknowledgement numbers are words.
  \<^item> \<open>Stomp_Errors\<close> (\<^verbatim>\<open>err.go\<close>): the error values and their texts.
  \<^item> \<open>Frames\<close> (\<^verbatim>\<open>frame.go\<close>): commands, header keys, the validation table, the frame and
    \<open>Validate\<close>.
  \<^item> \<open>Serializer\<close> (\<^verbatim>\<open>serializer.go\<close> and \<open>NewFrameFromBytes\<close>, \<open>String\<close>): escaping, the wire format
    and the parser.
  \<^item> \<open>Frame_Scanner\<close> (\<^verbatim>\<open>frame_scanner.go\<close>): the split function, and the scanner that drives it; the
    locale \<open>split_func\<close> states what the scanner relies on.
  \<^item> \<open>Heartbeats\<close> (\<^verbatim>\<open>common.go\<close>): the heart-beat header, and the locales \<open>hb_peer\<close> and \<open>hb_handshake\<close>
    for a side that negotiates and for two of them.
  \<^item> \<open>Transactions\<close> (\<^verbatim>\<open>transaction.go\<close>): the transaction buffer; the locale \<open>tx_store\<close> is its
    contract.
  \<^item> \<open>Subscriptions\<close> (\<^verbatim>\<open>subscribe.go\<close> without \<open>publish\<close>): the registry, its invariant \<open>reg_inv\<close>, the
    live subscriptions \<open>abs_registry\<close>, the specification \<open>reg_spec\<close> that it refines (\<open>view\<close>: who gets
    the messages of a destination, the destination of an ID, the IDs of a session), when a
    clean-up panics, and acknowledgements.
  \<^item> \<open>Sessions\<close> (\<^verbatim>\<open>broker.go\<close> up to \<open>send\<close>, and \<open>publish\<close>): the state of the broker process, what a
    session writes, the MESSAGE frame, publishing.
  \<^item> \<open>Broker\<close> (the rest of \<^verbatim>\<open>broker.go\<close>): CONNECT, the state machine, the loop and the end of a
    session, the options; \<open>broker_step\<close> makes the process a machine over the events of its
    connections.
  \<^item> \<open>Broker_Invariants\<close>: \<open>process_inv\<close> and its preservation by every event.
  \<^item> \<open>Broker_Behaviour\<close>: panics, publishing, COMMIT, dead subscribers, answers to CONNECT.
  \<^item> \<open>Broker_Refinement\<close>: the specification \<open>spec_broker\<close> (subscribers, transactions, inboxes, sessions
    served), and the simulation of it by the process for clients that subscribe with new IDs to
    free destinations and leave by DISCONNECT (\<open>polite\<close>).
  \<^item> \<open>Client\<close> (\<^verbatim>\<open>client.go\<close>): the client's operations and state machine, as a machine with the
    invariant \<open>client_inv\<close>.
  \<^item> \<open>Servers\<close> (\<^verbatim>\<open>tcp.go\<close>, \<^verbatim>\<open>websocket.go\<close>, \<^verbatim>\<open>cmd/stompd\<close>): the two servers as inductive step
    relations (\<open>tcp_step\<close>, \<open>wss_step\<close>) over the events of the network and of the sessions, with the
    invariants \<open>tcp_inv\<close> and \<open>wss_inv\<close>; when \<open>ListenAndServe\<close> returns; the options of \<^verbatim>\<open>stompd\<close>.
  \<^item> \<open>Go_Fields\<close>: \<open>strings.TrimSpace\<close>, \<open>strings.Fields\<close> and \<open>strings.Join\<close> on bytes in UTF-8.
  \<^item> \<open>Stomper\<close> (\<^verbatim>\<open>cmd/stomper\<close>): the state behind the prompt, one definition for every command
    handler, \<open>executor\<close> for a line and \<open>receive\<close> for a frame; \<open>Stomper_Behaviour\<close>: its invariant
    \<open>shell_inv\<close>, its panics, and what the commands do.
  \<^item> \<open>End_To_End\<close>: both sides together, from CONNECT to messages; the properties that span them
    are below, up to the way of a message from one interactive client to another.

  How the model relates to the code. Every definition translates one function, or one block or
  closure of a long function (then it is named after the block, and the text before it says
  which); a loop over bytes, lines or map entries is a recursion over the list of them. A Go map that
  is ranged over is an association list; the other maps are functions to \<open>option\<close>. Go leaves the
  order of an iteration open. Where it decides the outcome (the headers of a MESSAGE and of a
  message in a transaction, the clean-up of a session) it is a parameter, and every order is
  one of its values (\<open>slice_of_any\<close>, \<open>range_over_any\<close>). Elsewhere (which of several faults of a frame
  an error names, the rows that the shell prints) it is the order of the list. Pointers to
  sessions are session IDs and \<open>session_at\<close> is the store they point into. A body is \<open>None\<close> when
  the slice is nil. All goroutines of the broker work on one state, and one event handles one
  frame to its end: the interleavings are those of whole frames, while the code does not
  synchronize its maps at all.

  Parameters. UUIDs, the retried write on a connection (\<open>deliver\<close>, which may look at all that
  happened to the connection, and \<open>torn\<close>, the bytes that its failed attempts leave on the
  wire), the scheduler, the bitmap's minimum, lower case beyond ASCII, the order of
  iterations and the embedded version are fields of the record \<open>env\<close>; the properties name what
  they need of them (\<open>env_ok\<close>, distinct UUIDs, closed connections that refuse writes).

  Bounds and recursion. No definition uses fuel: the header loop of the splitter ends because it
  moves forward in the buffer, the scanner's loop by its reads and buffer, the loop over
  acknowledged numbers by the size of the pending set. The scanner's buffer limit of 65536
  bytes and the client's channel of 100 acknowledgements are those of the code. A \<open>Read\<close> of the
  scanner may return any bytes: the model does not cut it to the free part of the buffer and
  does not end after 100 empty reads (\<open>io.ErrNoProgress\<close>), so it has every run of \<open>bufio\<close> on a
  connection whose reads are not empty, and more.

  Servers and shell. What the network library returns to a server (a connection, an error) is an
  event, a signal is the event \<open>Shutdown\<close>; a panic ends the process (\<open>Crashed\<close>, and no step of
  the shell after it). The shell keeps its clients in a store, because a second \<^verbatim>\<open>connect\<close> leaves
  its transactions and subscriptions with the client that made them; what it prints is a list
  in its state. Opening a connection, the flag parser, colours, the table writer and the fuzzy
  filter are fields of \<open>shell_env\<close>.

  Not modelled: the inside of the network, HTTP and terminal libraries, logging, the texts of
  \<open>flag.Usage\<close>, and the data races of unsynchronized maps, of the token slices that the scanner
  reuses, and between the prompt and the receiving goroutine.
\<close>

section \<open>Properties\<close>

text \<open>
  C1. From the \<open>Send\<close> of one client to the message handler of another: the bytes that \<open>Send\<close>
  puts on the wire make the broker write one MESSAGE to the subscriber of the destination, and
  those bytes make the subscriber's client call its handler once, with exactly the body
  that was sent and with every header of the sender under its lower-case name. The text
  of headers and IDs must be free of backslashes and carriage returns, and the body of carriage
  returns.
\<close>

theorem send_reaches_handler:
  assumes inv: "core_inv st" and env: "env_ok env" "plain_env env" and net: "\<And>c b. deliver env c b = None"
    and f: "f = send_frame dest b ct custom" "Validate ClientFrame f = Ret ()" "plain_headers (headers f)"
      "CR \<notin> set (body_bytes f)" "getHeader f HdrKeyTransaction = ''''"
      "getHeader f HdrKeyDestination = dest" "dest \<noteq> ''''"
      "gm_ok (map (\<lambda>(k, v). (to_lower (unicode_lower env) k, v)) (headers (normal f)))"
    and sub: "subs_at (reg st) dest = [(i, info)]" "plain i"
    and link: "deliver env' (c_conn c) (serialize f) = None" "msgHandler c'"
    and sent: "raw = last (c_sent (fst (Send env' dest b ct custom c)))"
    and forwarded: "raw' = last (sent_to (fst (handle_raw env sid raw st)) (sessionHandler info))"
  shows "snd (handle_raw env sid raw st) = Ret () \<and>
    (\<exists>m. handled (fst (client_raw env'' raw' c')) = handled c' @ [m] \<and>
       Body m = (if body_bytes f = [] then None else Some (body_bytes f)) \<and>
       (\<forall>k. gm_get (headers f) k = None \<or>
          gm_get (Headers m) (to_lower (unicode_lower env) k) = gm_get (headers f) k))"
proof -
  have "raw = serialize f" using Send_sent(2) [of dest b ct custom env' c] f link by (simp add: sent)
  from broker_to_handler [OF inv env net f sub link(2) this forwarded] show ?thesis .
qed

definition open_env :: env where
  "open_env = demo_env\<lparr>deliver := \<lambda>_ _. None\<rparr>"

lemma open_env_ok: "env_ok open_env" "plain_env open_env" "deliver open_env c b = None"
  using demo_env_ok by (auto simp: open_env_def env_ok_def plain_env_def demo_env_def plain_def)

theorem send_reaches_handler_witness:
  "\<exists>m. handled (fst (client_raw echo_env
      (last (sent_to (fst (handle_raw open_env ''uu''
         (last (c_sent (fst (Send echo_env ''/q'' (Some ''hi'') ''text'' [] demo_client)))) demo_broker)) ''u''))
      demo_client)) = handled demo_client @ [m] \<and> Body m = Some ''hi''"
proof -
  let ?f = "send_frame ''/q'' (Some ''hi'') ''text'' []"
  have "Validate ClientFrame ?f = Ret ()" "plain_headers (headers ?f)" "CR \<notin> set (body_bytes ?f)"
    "getHeader ?f HdrKeyTransaction = ''''" "getHeader ?f HdrKeyDestination = ''/q''" "plain ''s1''"
    "gm_ok (map (\<lambda>(k, v). (to_lower (unicode_lower open_env) k, v)) (headers (normal ?f)))"
    "body_bytes ?f = ''hi''"
    by code_simp+
  moreover have "deliver echo_env (c_conn demo_client) (serialize ?f) = None" by (simp add: echo_env_def)
  moreover have "msgHandler demo_client" by (simp add: demo_client_def)
  moreover have "sessionHandler demo_info = ''u''" by (simp add: demo_info_def)
  ultimately show ?thesis
    using send_reaches_handler [where ct = "''text''" and custom = "[]" and b = "Some ''hi''" and env' = echo_env
        and env'' = echo_env and c = demo_client and c' = demo_client and sid = "''uu''",
        OF demo_core open_env_ok refl _ _ _ _ _ _ _ demo_subs _ _ _ refl refl]
    by auto
qed

text \<open>
  C9. Heart-beat agreement over the whole CONNECT exchange, from the client's bytes to the handling
  of the answer. When the client has an interval to offer, it sends it; broker and client then
  agree that each side sends by exactly the interval that the other expects, which is the
  larger of the two offers for that direction, or nothing when one of them is zero. When both
  intervals of the client are zero, it sends no heart-beat header; the broker skips the
  negotiation, keeps and announces its own intervals but starts no job, and the client keeps its
  zeros. In either case the broker has one new heart-beat job exactly when the client expects
  heart-beats of it, and the client one exactly when its own interval is not zero. The
  scheduler accepts jobs, the login is accepted, the writes succeed, and the text of the headers
  is free of backslashes and carriage returns.
\<close>

theorem heartbeat_agreement:
  assumes c: "plain (c_host c)" "plain (c_login c)" "plain (c_passcode c)"
    and login: "login_ok (session_at st sid) (connect_request useStomp c)"
    and s: "plain (sessionID (session_at st sid))" "sessionID (session_at st sid) \<noteq> ''''" "plain (releaseVersion env)"
    and sched: "scheduler_ok env" "scheduler_ok env'"
    and offer: "hb_offer (hb_send sid st) (hb_recv sid st)" "hb_offer (hbSendInterval c) (hbRecvInterval c)"
    and net: "\<And>c b. deliver env c b = None" "deliver env' (c_conn c) (serialize (connect_request useStomp c)) = None"
    and c1: "c1 = fst (connect env' useStomp c)" and raw: "raw = last (c_sent c1)"
    and st': "st' = fst (handle_raw env sid raw st)" and raw': "raw' = last (sent_to st' sid)"
    and c': "c' = fst (client_raw env' raw' c1)"
  shows "(if hbSendInterval c \<noteq> 0 \<or> hbRecvInterval c \<noteq> 0
      then hb_send sid st' = negotiated (hb_send sid st) (hbRecvInterval c) \<and> hbRecvInterval c' = hb_send sid st' \<and>
        hb_recv sid st' = negotiated (hb_recv sid st) (hbSendInterval c) \<and> hbSendInterval c' = hb_recv sid st'
      else hb_send sid st' = hb_send sid st \<and> hbRecvInterval c' = 0 \<and>
        hb_recv sid st' = hb_recv sid st \<and> hbSendInterval c' = 0) \<and>
    map snd (jobs st') = map snd (jobs st) @ (if hbRecvInterval c' \<noteq> 0 then [sid] else []) \<and>
    length (c_jobs c') = length (c_jobs c) + (if hbSendInterval c' \<noteq> 0 then 1 else 0)"
proof -
  obtain st1 c2 where same: "hb_send sid st' = hb_send sid st1" "hb_recv sid st' = hb_recv sid st1" "jobs st' = jobs st1"
    and neg: "if offers_heartbeats c
      then st1 = fst (negotiateHeartbeats env sid (fmt_hb (hbSendInterval c) (hbRecvInterval c)) st) \<and>
        map snd (jobs st1) = map snd (jobs st) @ (if hb_send sid st1 \<noteq> 0 then [sid] else [])
      else st1 = st"
    and c2: "hbSendInterval c2 = hbSendInterval c" "hbRecvInterval c2 = hbRecvInterval c" "c_jobs c2 = c_jobs c"
    and c': "c' = fst (client_negotiateHeartbeats env' (fmt_hb (hb_send sid st1) (hb_recv sid st1)) c2)"
    by (rule connect_exchange [OF c login s sched(1) offer(2) net c1 raw st' raw' c'])
  show ?thesis
  proof (cases "offers_heartbeats c")
    case True
    note n = neg [unfolded if_P [OF True]]
    from n have "st1 = fst (negotiateHeartbeats env sid (fmt_hb (hbSendInterval c2) (hbRecvInterval c2)) st)"
      unfolding c2 by (rule conjunct1)
    from offered_heartbeats [OF offer(1) _ this c' sched(2)] offer(2) conjunct2 [OF n] True show ?thesis
      by (simp add: same c2 offers_heartbeats_def)
  next
    case False
    with neg no_heartbeats_offered [OF _ _ _ c' sched(2)] offer(1) show ?thesis
      by (simp add: same c2 offers_heartbeats_def)
  qed
qed

text \<open>A session of a broker with intervals of 5000, and two clients: one offers 7000, one nothing.\<close>

definition beat_broker :: broker where
  "beat_broker = update_session ''u''
     (\<lambda>s. s\<lparr>sessionID := ''u'', hbSendIntervalMsec := 5000, hbRecvIntervalMsec := 5000\<rparr>) demo_broker"

definition after_connect :: "ClientHandler \<Rightarrow> broker \<times> ClientHandler" where
  "after_connect c =
     (let c1 = fst (connect echo_env False c);
          st' = fst (handle_raw open_env ''u'' (last (c_sent c1)) beat_broker)
      in (st', fst (client_raw echo_env (last (sent_to st' ''u'')) c1)))"

theorem heartbeat_agreement_witness:
  "hb_send ''u'' (fst (after_connect (demo_client\<lparr>hbRecvInterval := 7000\<rparr>))) = 7000 \<and>
   hbRecvInterval (snd (after_connect (demo_client\<lparr>hbRecvInterval := 7000\<rparr>))) = 7000 \<and>
   map snd (jobs (fst (after_connect (demo_client\<lparr>hbRecvInterval := 7000\<rparr>)))) = [''u''] \<and>
   hb_send ''u'' (fst (after_connect demo_client)) = 5000 \<and>
   hbRecvInterval (snd (after_connect demo_client)) = 0 \<and> jobs (fst (after_connect demo_client)) = []"
proof -
  have sess: "session_at beat_broker ''u'' = (NewSession '''' new_conn None 0 0)
      \<lparr>sessionID := ''u'', hbSendIntervalMsec := 5000, hbRecvIntervalMsec := 5000\<rparr>" "jobs beat_broker = []"
    by (simp_all add: beat_broker_def update_session_def demo_session) (simp add: demo_broker_def broker_start_def)
  have envs: "scheduler_ok open_env" "scheduler_ok echo_env" "plain (releaseVersion open_env)"
    "deliver echo_env cn b = None" for cn b
    by (simp_all add: scheduler_ok_def open_env_def demo_env_def echo_env_def plain_def)
  have rule: "(if hbRecvInterval c \<noteq> 0
      then hb_send ''u'' (fst (after_connect c)) = negotiated 5000 (hbRecvInterval c) \<and>
        hbRecvInterval (snd (after_connect c)) = hb_send ''u'' (fst (after_connect c))
      else hb_send ''u'' (fst (after_connect c)) = 5000 \<and> hbRecvInterval (snd (after_connect c)) = 0) \<and>
    map snd (jobs (fst (after_connect c))) = (if hbRecvInterval (snd (after_connect c)) \<noteq> 0 then [''u''] else [])"
    if "c = demo_client\<lparr>hbRecvInterval := n\<rparr>" "0 \<le> n" "int64 n" for c n
  proof -
    have "plain (c_host c)" "plain (c_login c)" "plain (c_passcode c)" "hb_offer (hbSendInterval c) (hbRecvInterval c)"
      "hbSendInterval c = 0"
      using that by (simp_all add: demo_client_def client_over_def plain_def hb_offer_def int64_def)
    moreover have "login_ok (session_at beat_broker ''u'') (connect_request False c)"
      by (simp add: login_ok_def sess NewSession_def)
    moreover have "plain (sessionID (session_at beat_broker ''u''))" "sessionID (session_at beat_broker ''u'') \<noteq> ''''"
      "hb_offer (hb_send ''u'' beat_broker) (hb_recv ''u'' beat_broker)"
      by (simp_all add: sess plain_def hb_offer_def int64_def)
    ultimately show ?thesis
      using heartbeat_agreement [where c = c and st = beat_broker and sid = "''u''" and useStomp = False
          and env = open_env and env' = echo_env, OF _ _ _ _ _ _ envs(3,1,2) _ _ open_env_ok(3) envs(4) refl refl refl refl refl]
      by (simp add: after_connect_def Let_def sess split: if_splits)
  qed
  have zero: "hbRecvInterval demo_client = 0" by (simp add: demo_client_def client_over_def)
  then have none: "demo_client = demo_client\<lparr>hbRecvInterval := 0\<rparr>" by simp
  from rule [OF refl, of 7000] rule [OF none] zero show ?thesis
    by (auto simp: int64_def negotiated_def)
qed

text \<open>
  C30. A client that subscribes in any mode but \<open>client-individual\<close>, the default mode
  included, handles 100 messages: nothing ever reads its acknowledgement channel, and with
  the next message its receiving goroutine blocks forever.
\<close>

theorem client_blocks_after_100:
  assumes "\<And>f. f \<in> set fs \<Longrightarrow> wire_ok f \<and> Validate ServerFrame f = Ret () \<and> command f = CmdMessage"
    and "list_all (queues_ack c) fs" and "ackCh c = []"
  shows "snd (client_loop env (map serialize fs) c) = (if length fs \<le> 100 then Ret () else Block)"
  using client_loop_queue [OF assms(1) assms(2), of env] assms(3) by (simp add: ackCh_capacity_def)

definition demo_message :: Frame where
  "demo_message = NewFrame CmdMessage [(HdrKeyDestination, ''/q''), (HdrKeyMessageID, ''m''),
     (HdrKeySubscription, ''s1''), (HdrKeyAck, ''/q:s1:0'')] (Some ''hi'')"

theorem client_blocks_after_100_witness:
  "snd (client_loop echo_env (map serialize (replicate 101 demo_message)) demo_client) = Block"
proof -
  have "wire_ok demo_message \<and> Validate ServerFrame demo_message = Ret () \<and> command demo_message = CmdMessage"
    by code_simp
  moreover have "queues_ack demo_client demo_message"
  proof -
    have "getHeader demo_message HdrKeyAck \<noteq> ''''" "getHeader demo_message HdrKeySubscription = ''s1''"
      by code_simp+
    then show ?thesis by (simp add: queues_ack_def demo_client_def)
  qed
  moreover have "ackCh demo_client = []" by (simp add: demo_client_def client_over_def)
  ultimately show ?thesis
    using client_blocks_after_100 [of "replicate 101 demo_message" demo_client echo_env]
    by (simp add: list_all_iff)
qed

text \<open>
  C26. A message that a client sends in a transaction is held back: the bytes of \<open>Tx_Send\<close> make
  the broker append exactly that message to the queue of the client's transaction, whatever
  transaction header the user tried to give, and write nothing to any session.
\<close>

theorem tx_send_is_buffered:
  assumes t: "tx_open t" "TxID t \<noteq> ''''" and q: "txBuffer st (TxID t) = Some q"
    and f: "f = send_frame dest b ct (tx_headers (unicode_lower env') (TxID t) (range_over (range_order env' (c_uuids c)) hs))"
      "Validate ClientFrame f = Ret ()" "wire_ok f"
    and link: "deliver env' (c_conn c) (serialize f) = None"
    and sent: "raw = last (c_sent (fst (Tx_Send env' t dest b ct hs c)))"
  shows "snd (handle_raw env sid raw st) = Ret () \<and>
    txBuffer (fst (handle_raw env sid raw st)) = (txBuffer st)(TxID t \<mapsto> q @ [normal f]) \<and>
    sent_to (fst (handle_raw env sid raw st)) = sent_to st"
proof -
  have raw: "raw = serialize f"
    using Send_sent(2) [of dest b ct "tx_headers (unicode_lower env') (TxID t) (range_over (range_order env' (c_uuids c)) hs)" env' c] f link t
    by (simp add: sent Tx_Send_def)
  have "command f = CmdSend" by (simp add: f(1) send_frame_def NewFrame_def)
  moreover have "getHeader f HdrKeyTransaction = TxID t" by (simp add: getHeader_def f(1) tx_send_header)
  ultimately have "handle_raw env sid raw st = on_tx (bufferTxMessage (TxID t) (normal f)) st"
    using t(2) by (simp add: raw handle_raw_wire [OF f(3,2)] stateMachine_send tx_step_fn)
  with q show ?thesis by (auto simp: on_tx_def bufferTxMessage_def sent_to_def fun_eq_iff)
qed

theorem tx_send_is_buffered_witness:
  "snd (handle_raw open_env ''uu''
     (last (c_sent (fst (Tx_Send echo_env \<lparr>tx_open = True, TxID = ''t''\<rparr> ''/q'' (Some ''hi'') ''text''
        [(''Transaction'', ''other'')] demo_client))))
     (demo_broker\<lparr>txBuffer := [''t'' \<mapsto> []]\<rparr>)) = Ret ()"
proof -
  let ?t = "\<lparr>tx_open = True, TxID = ''t''\<rparr>" and ?st = "demo_broker\<lparr>txBuffer := [''t'' \<mapsto> []]\<rparr>"
  let ?f = "send_frame ''/q'' (Some ''hi'') ''text'' (tx_headers (unicode_lower echo_env) (TxID ?t) [(''Transaction'', ''other'')])"
  have "Validate ClientFrame ?f = Ret ()" "wire_ok ?f" by code_simp+
  moreover have "range_over (range_order echo_env n) hs = hs" for n and hs :: "(string, string) gomap"
    by (simp add: echo_env_def)
  ultimately show ?thesis
    using tx_send_is_buffered [of ?t ?st "[]", OF _ _ _ refl _ _ _ refl, where dest = "''/q''" and b = "Some ''hi''"
        and ct = "''text''" and env' = echo_env and hs = "[(''Transaction'', ''other'')]" and c = demo_client
        and env = open_env and sid = "''uu''"]
    by (simp add: echo_env_def)
qed

text \<open>
  C13. From one interactive client to another: the command \<open>send\<close> with a destination and some
  words, entered outside a transaction, puts bytes on the wire that make the broker write one
  MESSAGE to the subscriber, and those bytes, when they arrive at a shell that receives,
  append one message to those that \<open>read\<close> will show, ending in the words that were
  entered.
\<close>

theorem shell_to_shell:
  assumes inv: "core_inv st" and env: "env_ok env" "plain_env env" and net: "\<And>c b. deliver env c b = None"
    and sender: "shell_inv ctx" "client ctx = Some k" "currTxAlias ctx = ''''" "\<And>c b. deliver (net E) c b = None"
    and args: "list_all plain_word args" "parse_args E args = Inr (opts, rest)" "opt_Dest opts = dest" "dest \<noteq> ''''"
      "option_headers (opt_Headers opts) [] = Inr h"
    and f: "f = send_frame dest (Some (join '' '' rest)) ''plain/text'' h" "Validate ClientFrame f = Ret ()"
      "plain_headers (headers f)" "CR \<notin> set (body_bytes f)" "getHeader f HdrKeyTransaction = ''''"
      "getHeader f HdrKeyDestination = dest"
      "gm_ok (map (\<lambda>(k, v). (to_lower (unicode_lower env) k, v)) (headers (normal f)))"
    and sub: "subs_at (reg st) dest = [(i, info)]" "plain i"
    and receiver: "shell_inv ctx'" "k' \<in> receiving ctx'"
    and raw: "raw = last (c_sent (clients (fst (executor E (join '' '' (''send'' # args)) ctx)) ! k))"
    and raw': "raw' = last (sent_to (fst (handle_raw env sid raw st)) (sessionHandler info))"
  shows "\<exists>hdrs. messages (fst (receive E' k' raw' ctx')) =
    messages ctx' @ [hdrs @ bodyPrint E' (join '' '' rest)]"
proof -
  have body: "body_bytes f = join '' '' rest" by (simp add: f(1) send_frame_def NewFrame_def body_bytes_def)
  have "tx_option ctx h = Ret h" using sender(3) by (simp add: tx_option_def)
  note line = send_line [where E = E, OF args(1) sender(2) shell_inv_client [OF sender(1,2)] args(2) _ args(5) this refl _ sender(4)]
  have "raw = serialize f"
    using line f(1,2) args(3,4) shell_inv_client [OF sender(1,2)] by (simp add: raw send_frame_def okMsg_def)
  moreover have k': "k' < length (clients ctx')" using receiver by (auto simp: shell_inv_def)
  then have "msgHandler (clients ctx' ! k')" using shell_inv_client_ok [OF receiver(1)] by (simp add: client_ok_def)
  ultimately obtain m where m: "handled (fst (client_raw (net E') raw' (clients ctx' ! k'))) = handled (clients ctx' ! k') @ [m]"
      "Body m = (if body_bytes f = [] then None else Some (body_bytes f))"
    using broker_to_handler [OF inv env net f(1-6) args(4) f(7) sub _ _ raw'] by blast
  then have "message_text E' m = concat (map (\<lambda>(k, v). keyPrint E' k @ '':'' @ valPrint E' v @ [LF]) (Headers m)) @
      bodyPrint E' (join '' '' rest)"
    by (simp add: message_text_def body)
  then show ?thesis
    using receive_messages [OF receiver(2), of E' raw'] m(1) by simp
qed

definition demo_shell_ctx :: stateContext where
  "demo_shell_ctx = demo_ctx\<lparr>messages := [''old'']\<rparr>"

theorem shell_to_shell_witness:
  "\<exists>hdrs. messages (fst (receive demo_shell 0
      (last (sent_to (fst (handle_raw open_env ''uu''
         (last (c_sent (clients (fst (executor demo_shell (join '' '' [''send'', ''-d'', ''/q'', ''hi'', ''there'']) demo_ctx)) ! 0)))
         demo_broker)) ''u'')) demo_shell_ctx)) = [''old'', hdrs @ ''hi there'']"
proof -
  let ?opts = "\<lparr>opt_Headers = [], opt_File = '''', opt_Dest = ''/q''\<rparr>" and ?args = "[''-d'', ''/q'', ''hi'', ''there'']"
  let ?f = "send_frame ''/q'' (Some (join '' '' [''hi'', ''there''])) ''plain/text'' []"
  have "list_all plain_word ?args" "parse_args demo_shell ?args = Inr (?opts, [''hi'', ''there''])"
    "opt_Dest ?opts = ''/q''" "''/q'' \<noteq> ''''" "option_headers (opt_Headers ?opts) [] = Inr []"
    "Validate ClientFrame ?f = Ret ()" "plain_headers (headers ?f)" "CR \<notin> set (body_bytes ?f)"
    "getHeader ?f HdrKeyTransaction = ''''" "getHeader ?f HdrKeyDestination = ''/q''"
    "gm_ok (map (\<lambda>(k, v). (to_lower (unicode_lower open_env) k, v)) (headers (normal ?f)))" "plain ''s1''"
    by code_simp+
  note run = this
  have "shell_inv demo_shell_ctx" using demo_ctx_inv by (simp add: demo_shell_ctx_def)
  moreover have "0 \<in> receiving demo_shell_ctx" "messages demo_shell_ctx = [''old'']" by code_simp+
  moreover have "sessionHandler demo_info = ''u''" by (simp add: demo_info_def)
  moreover have "bodyPrint demo_shell (join '' '' [''hi'', ''there'']) = ''hi there''" by (simp add: demo_shell_def)
  ultimately show ?thesis
    using shell_to_shell [OF demo_core open_env_ok demo_ctx_inv demo_net(4,5,2) run(1-5) refl run(6-11)
        demo_subs run(12) _ _ refl refl, of demo_shell_ctx 0 demo_shell "''uu''"]
    by auto
qed

end
